theory Spec2Isabelle
  imports Main
begin

section \<open>Data model of the device session (eufy-robovac.ts)\<close>

text \<open>
  A value a data point can carry (\<^verbatim>\<open>string | number | boolean\<close>). The device reports the
  battery level as a whole percentage, so numbers are integers here.
\<close>

datatype dp_value = VBool bool | VStr string | VNum int

text \<open>The argument of \<^verbatim>\<open>set\<close>: \<^verbatim>\<open>{ [key: string]: string | number | boolean }\<close>.\<close>

type_synonym dp_data = "string \<rightharpoonup> dp_value"

text \<open>
  \<^verbatim>\<open>interface StatusResponse { devId: string, dps: { "1": boolean, "2": boolean, "3": string,
  "5": string, "15": string, "101": boolean, "102": string, "103": boolean, "104": number,
  "106": string } }\<close>. The field \<open>dp_k\<close> is the entry with key \<open>"k"\<close>.
\<close>

record dps_t =
  dp_1 :: bool
  dp_2 :: bool
  dp_3 :: string
  dp_5 :: string
  dp_15 :: string
  dp_101 :: bool
  dp_102 :: string
  dp_103 :: bool
  dp_104 :: int
  dp_106 :: string

record StatusResponse =
  devId :: string
  dps :: dps_t

text \<open>The data-point codes of class \<^verbatim>\<open>RoboVac\<close>.\<close>

definition PLAY_PAUSE :: string where "PLAY_PAUSE = ''2''"
definition DIRECTION :: string where "DIRECTION = ''3''"
definition WORK_MODE :: string where "WORK_MODE = ''5''"
definition WORK_STATUS :: string where "WORK_STATUS = ''15''"
definition GO_HOME :: string where "GO_HOME = ''101''"
definition CLEAN_SPEED :: string where "CLEAN_SPEED = ''102''"
definition FIND_ROBOT :: string where "FIND_ROBOT = ''103''"
definition BATTERY_LEVEL :: string where "BATTERY_LEVEL = ''104''"
definition ERROR_CODE :: string where "ERROR_CODE = ''106''"

text \<open>The string enums the code compares against.\<close>

definition WorkStatus_CHARGING :: string where "WorkStatus_CHARGING = ''Charging''"
definition WorkStatus_COMPLETED :: string where "WorkStatus_COMPLETED = ''completed''"
definition WorkMode_AUTO :: string where "WorkMode_AUTO = ''auto''"
definition ErrorCode_NO_ERROR :: string where "ErrorCode_NO_ERROR = ''no_error''"

text \<open>
  What a call can throw: the session's own \<^verbatim>\<open>new Error(msg)\<close>, the \<^verbatim>\<open>TypeError\<close> of reading
  a property of \<^verbatim>\<open>null\<close> or \<^verbatim>\<open>undefined\<close>, and whatever the transport rejects with.
\<close>

datatype error = Error string | TypeError | TransportError string

text \<open>
  The part of the transport object the session reads: \<^verbatim>\<open>api.device.id\<close> and
  \<^verbatim>\<open>api.device.ip\<close> (\<open>None\<close> is \<^verbatim>\<open>undefined\<close>).
\<close>

record tuya_device =
  dev_id :: "string option"
  dev_ip :: "string option"

text \<open>The options handed to \<^verbatim>\<open>new TuyAPI(...)\<close>.\<close>

record tuya_opts =
  opt_id :: "string option"
  opt_key :: "string option"
  opt_ip :: "string option"
  opt_port :: int
  opt_version :: string
  opt_issueRefreshOnConnect :: bool

text \<open>The events the transport emits (\<^verbatim>\<open>api.on(...)\<close>).\<close>

datatype lifecycle =
  OnError error
| OnConnected
| OnDisconnected
| OnDpRefresh dp_data
| OnData StatusResponse

text \<open>The value handed to a completion callback of the accessory framework.\<close>

datatype hap_value =
  HBool bool
| HNum int
| ChargingState_CHARGING
| ChargingState_NOT_CHARGEABLE
| StatusLowBattery_BATTERY_LEVEL_LOW
| StatusLowBattery_BATTERY_LEVEL_NORMAL

text \<open>
  What the outside world sees, in order: the calls on the transport object, the settle
  delay, and every invocation of the caller's completion callback with its two arguments
  (error, value).
\<close>

datatype action =
  ApiFind int
| ApiConnect
| ApiDisconnect
| ApiGet bool
| ApiSet bool dp_data
| Sleep int
| Completed "error option" "hap_value option"

datatype level = Debug | Info | LogError

record world =
  trace :: "action list"
  logs :: "(level \<times> string) list"
  ticks :: nat

text \<open>
  The external collaborators, as parameters: the transport library and the clock. A reply
  may depend on everything done so far (the trace, whose last entry is the call being
  answered); with it comes the list of events the transport emits while the call is
  pending. \<open>getTime env k\<close> is what the \<open>k\<close>-th reading of the clock returns.
\<close>

record env =
  tuya_new :: "tuya_opts \<Rightarrow> error + tuya_device"
  api_find :: "action list \<Rightarrow> tuya_device \<Rightarrow> lifecycle list \<times> error option \<times> tuya_device"
  api_connect :: "action list \<Rightarrow> lifecycle list \<times> error option"
  api_disconnect :: "action list \<Rightarrow> lifecycle list \<times> error option"
  api_get :: "action list \<Rightarrow> lifecycle list \<times> (error + StatusResponse)"
  api_set :: "action list \<Rightarrow> lifecycle list \<times> error option"
  sleep_events :: "action list \<Rightarrow> lifecycle list"
  getTime :: "nat \<Rightarrow> int"

record RoboVac =
  api :: tuya_device
  connected :: bool
  statuses :: "StatusResponse option"
  lastStatusUpdate :: "int option"
  maxStatusUpdateAge :: int
  timeoutDuration :: int

record config =
  deviceId :: "string option"
  localKey :: "string option"
  ip :: "string option"
  port :: int

type_synonym 'a result = "(error + 'a) \<times> RoboVac \<times> world"

section \<open>The device session\<close>

text \<open>\<^verbatim>\<open>!x\<close> on an optional string: \<^verbatim>\<open>undefined\<close> and \<^verbatim>\<open>""\<close> are falsy.\<close>

definition falsy :: "string option \<Rightarrow> bool" where
  "falsy x = (case x of None \<Rightarrow> True | Some s \<Rightarrow> s = [])"

text \<open>
  \<^verbatim>\<open>this.log.debug(...)\<close> and \<^verbatim>\<open>this.log.error(...)\<close>: only the constant text of a message
  is kept.
\<close>

definition log_msg :: "level \<Rightarrow> string \<Rightarrow> world \<Rightarrow> world" where
  "log_msg l m w = w\<lparr>logs := logs w @ [(l, m)]\<rparr>"

definition act :: "action \<Rightarrow> world \<Rightarrow> world" where
  "act a w = w\<lparr>trace := trace w @ [a]\<rparr>"

text \<open>\<^verbatim>\<open>(new Date()).getTime()\<close>.\<close>

definition now :: "env \<Rightarrow> world \<Rightarrow> int \<times> world" where
  "now env w = (getTime env (ticks w), w\<lparr>ticks := Suc (ticks w)\<rparr>)"

text \<open>The five handlers registered in the constructor.\<close>

fun on_event :: "lifecycle \<Rightarrow> RoboVac \<Rightarrow> world \<Rightarrow> RoboVac \<times> world" where
  "on_event (OnError e) s w = (s, log_msg LogError ''Robovac Error'' w)"
| "on_event OnConnected s w = (s\<lparr>connected := True\<rparr>, log_msg Debug ''Connected!'' w)"
| "on_event OnDisconnected s w = (s\<lparr>connected := False\<rparr>, log_msg Debug ''Disconnected!'' w)"
| "on_event (OnDpRefresh d) s w =
     (s, log_msg Debug ''Status Updated!'' (log_msg Debug ''DP_REFRESH data from device: '' w))"
| "on_event (OnData d) s w =
     (s, log_msg Debug ''Status Updated!'' (log_msg Debug ''Data from device:'' w))"

fun deliver :: "lifecycle list \<Rightarrow> RoboVac \<Rightarrow> world \<Rightarrow> RoboVac \<times> world" where
  "deliver [] s w = (s, w)"
| "deliver (e # es) s w = (case on_event e s w of (s', w') \<Rightarrow> deliver es s' w')"

text \<open>The options the constructor builds for the transport from its configuration.\<close>

definition tuya_options :: "config \<Rightarrow> tuya_opts" where
  "tuya_options cfg =
     \<lparr>opt_id = deviceId cfg, opt_key = localKey cfg, opt_ip = ip cfg, opt_port = port cfg,
      opt_version = ''3.3'', opt_issueRefreshOnConnect = True\<rparr>"

text \<open>
  \<^verbatim>\<open>constructor(config, log, timeoutDuration = 2)\<close>: the only check is on \<^verbatim>\<open>deviceId\<close>; then
  the transport object is created.
\<close>

definition RoboVac_new :: "env \<Rightarrow> config \<Rightarrow> int \<Rightarrow> error + RoboVac" where
  "RoboVac_new env cfg timeout =
     (if falsy (deviceId cfg) then Inl (Error ''You must pass through deviceId'')
      else case tuya_new env (tuya_options cfg) of
             Inl e \<Rightarrow> Inl e
           | Inr d \<Rightarrow> Inr \<lparr>api = d, connected = False, statuses = None,
                           lastStatusUpdate = None, maxStatusUpdateAge = 1000 * (1 * 30),
                           timeoutDuration = timeout\<rparr>)"

definition connect :: "env \<Rightarrow> RoboVac \<Rightarrow> world \<Rightarrow> unit result" where
  "connect env s w =
     (if \<not> connected s then
        (let w1 = act ApiConnect (log_msg Debug ''Connecting...'' w) in
         case api_connect env (trace w1) of (evs, r) \<Rightarrow>
           (case deliver evs s w1 of (s', w2) \<Rightarrow>
              (case r of Some e \<Rightarrow> (Inl e, s', w2) | None \<Rightarrow> (Inr (), s', w2))))
      else (Inr (), s, w))"

definition disconnect :: "env \<Rightarrow> RoboVac \<Rightarrow> world \<Rightarrow> unit result" where
  "disconnect env s w =
     (let w1 = act ApiDisconnect (log_msg Debug ''Disconnecting...'' w) in
      case api_disconnect env (trace w1) of (evs, r) \<Rightarrow>
        (case deliver evs s w1 of (s', w2) \<Rightarrow>
           (case r of Some e \<Rightarrow> (Inl e, s', w2) | None \<Rightarrow> (Inr (), s', w2))))"

text \<open>
  The discovery step of \<^verbatim>\<open>doWork\<close>: taken when the transport's device id or address is
  missing; a failure of \<^verbatim>\<open>api.find\<close> is logged and swallowed.
\<close>

definition discover :: "env \<Rightarrow> RoboVac \<Rightarrow> world \<Rightarrow> RoboVac \<times> world" where
  "discover env s w =
     (if falsy (dev_id (api s)) \<or> falsy (dev_ip (api s)) then
        (let w1 = act (ApiFind (timeoutDuration s)) (log_msg Debug ''Looking for device...'' w) in
         case api_find env (trace w1) (api s) of (evs, r, d) \<Rightarrow>
           (case deliver evs (s\<lparr>api := d\<rparr>) w1 of (s', w2) \<Rightarrow>
              (case r of None \<Rightarrow> (s', log_msg Debug ''Found device'' w2)
                       | Some e \<Rightarrow> (s', log_msg Debug ''err.toString()'' w2))))
      else (s, w))"

definition doWork :: "env \<Rightarrow> (RoboVac \<Rightarrow> world \<Rightarrow> 'a result) \<Rightarrow> RoboVac \<Rightarrow> world \<Rightarrow> 'a result" where
  "doWork env work s w =
     (case discover env s w of (s1, w1) \<Rightarrow>
        (case connect env s1 w1 of
           (Inl e, s2, w2) \<Rightarrow> (Inl e, s2, w2)
         | (Inr u, s2, w2) \<Rightarrow> work s2 w2))"

text \<open>The closure \<^verbatim>\<open>getStatuses\<close> hands to \<^verbatim>\<open>doWork\<close>: the full-schema read.\<close>

definition readStatuses :: "env \<Rightarrow> RoboVac \<Rightarrow> world \<Rightarrow> (StatusResponse option) result" where
  "readStatuses env s w =
     (let w1 = act (ApiGet True) w in
      case api_get env (trace w1) of (evs, r) \<Rightarrow>
        (case deliver evs s w1 of (s', w2) \<Rightarrow>
           (case r of
              Inl e \<Rightarrow> (Inl e, s', w2)
            | Inr st \<Rightarrow>
                (case now env w2 of (t, w3) \<Rightarrow>
                   (Inr (Some st), s'\<lparr>statuses := Some st, lastStatusUpdate := Some t\<rparr>, w3)))))"

text \<open>A timestamp in arithmetic: \<^verbatim>\<open>null\<close> counts as 0.\<close>

definition to_number :: "int option \<Rightarrow> int" where
  "to_number x = (case x of None \<Rightarrow> 0 | Some l \<Rightarrow> l)"

text \<open>
  \<^verbatim>\<open>force || (new Date()).getTime() - this.lastStatusUpdate > this.maxStatusUpdateAge\<close>:
  the clock is read only when \<open>force\<close> is false.
\<close>

definition getStatuses :: "env \<Rightarrow> bool \<Rightarrow> RoboVac \<Rightarrow> world \<Rightarrow> (StatusResponse option) result" where
  "getStatuses env force s w =
     (if force then doWork env (readStatuses env) s w
      else case now env w of (t, w0) \<Rightarrow>
        (if t - to_number (lastStatusUpdate s) > maxStatusUpdateAge s
         then doWork env (readStatuses env) s w0
         else (Inr (statuses s), s, w0)))"

text \<open>
  The accessors: \<^verbatim>\<open>statuses.dps[code]\<close> of the result of \<^verbatim>\<open>getStatuses\<close>, cast to the type
  the interface declares for that code; on \<^verbatim>\<open>null\<close> the property read throws. Each accessor
  reads the field of its code: \<^verbatim>\<open>CLEAN_SPEED\<close> 102, \<^verbatim>\<open>PLAY_PAUSE\<close> 2, \<^verbatim>\<open>WORK_MODE\<close> 5,
  \<^verbatim>\<open>WORK_STATUS\<close> 15, \<^verbatim>\<open>FIND_ROBOT\<close> 103, \<^verbatim>\<open>BATTERY_LEVEL\<close> 104, \<^verbatim>\<open>ERROR_CODE\<close> 106.
\<close>

definition project :: "(dps_t \<Rightarrow> 'a) \<Rightarrow> (StatusResponse option) result \<Rightarrow> 'a result" where
  "project f r =
     (case r of
        (Inl e, s, w) \<Rightarrow> (Inl e, s, w)
      | (Inr None, s, w) \<Rightarrow> (Inl TypeError, s, w)
      | (Inr (Some st), s, w) \<Rightarrow> (Inr (f (dps st)), s, w))"

definition getCleanSpeed :: "env \<Rightarrow> bool \<Rightarrow> RoboVac \<Rightarrow> world \<Rightarrow> string result" where
  "getCleanSpeed env force s w = project dp_102 (getStatuses env force s w)"

definition getPlayPause :: "env \<Rightarrow> bool \<Rightarrow> RoboVac \<Rightarrow> world \<Rightarrow> bool result" where
  "getPlayPause env force s w = project dp_2 (getStatuses env force s w)"

definition getWorkMode :: "env \<Rightarrow> bool \<Rightarrow> RoboVac \<Rightarrow> world \<Rightarrow> string result" where
  "getWorkMode env force s w = project dp_5 (getStatuses env force s w)"

definition getWorkStatus :: "env \<Rightarrow> bool \<Rightarrow> RoboVac \<Rightarrow> world \<Rightarrow> string result" where
  "getWorkStatus env force s w = project dp_15 (getStatuses env force s w)"

definition getFindRobot :: "env \<Rightarrow> bool \<Rightarrow> RoboVac \<Rightarrow> world \<Rightarrow> bool result" where
  "getFindRobot env force s w = project dp_103 (getStatuses env force s w)"

definition getBatteyLevel :: "env \<Rightarrow> bool \<Rightarrow> RoboVac \<Rightarrow> world \<Rightarrow> int result" where
  "getBatteyLevel env force s w = project dp_104 (getStatuses env force s w)"

definition getErrorCode :: "env \<Rightarrow> bool \<Rightarrow> RoboVac \<Rightarrow> world \<Rightarrow> string result" where
  "getErrorCode env force s w = project dp_106 (getStatuses env force s w)"

text \<open>\<^verbatim>\<open>set(data)\<close>: one call \<^verbatim>\<open>api.set({ multiple: true, data: data })\<close>.\<close>

definition set_dps :: "env \<Rightarrow> dp_data \<Rightarrow> RoboVac \<Rightarrow> world \<Rightarrow> unit result" where
  "set_dps env data s w =
     (let w1 = act (ApiSet True data) (log_msg Debug ''Setting: '' w) in
      case api_set env (trace w1) of (evs, r) \<Rightarrow>
        (case deliver evs s w1 of (s', w2) \<Rightarrow>
           (case r of Some e \<Rightarrow> (Inl e, s', w2) | None \<Rightarrow> (Inr (), s', w2))))"

definition setCleanSpeed :: "env \<Rightarrow> string \<Rightarrow> RoboVac \<Rightarrow> world \<Rightarrow> unit result" where
  "setCleanSpeed env cleanSpeed s w =
     doWork env (set_dps env [CLEAN_SPEED \<mapsto> VStr cleanSpeed]) s w"

definition setPlayPause :: "env \<Rightarrow> bool \<Rightarrow> RoboVac \<Rightarrow> world \<Rightarrow> unit result" where
  "setPlayPause env state s w =
     doWork env (set_dps env [PLAY_PAUSE \<mapsto> VBool state]) s w"

definition play :: "env \<Rightarrow> RoboVac \<Rightarrow> world \<Rightarrow> unit result" where
  "play env s w = setPlayPause env True s w"

definition pause :: "env \<Rightarrow> RoboVac \<Rightarrow> world \<Rightarrow> unit result" where
  "pause env s w = setPlayPause env True s w"

definition setWorkMode :: "env \<Rightarrow> string \<Rightarrow> RoboVac \<Rightarrow> world \<Rightarrow> unit result" where
  "setWorkMode env workMode s w =
     doWork env (\<lambda>s1 w1. set_dps env [WORK_MODE \<mapsto> VStr workMode] s1
                           (log_msg Debug ''Setting WorkMode to '' w1)) s w"

definition startCleaning :: "env \<Rightarrow> bool \<Rightarrow> RoboVac \<Rightarrow> world \<Rightarrow> unit result" where
  "startCleaning env force s w =
     (case getStatuses env force s w of
        (Inl e, s1, w1) \<Rightarrow> (Inl e, s1, w1)
      | (Inr st, s1, w1) \<Rightarrow>
          (case setWorkMode env WorkMode_AUTO s1 (log_msg Debug ''Starting Cleaning'' w1) of
             (Inl e, s2, w2) \<Rightarrow> (Inl e, s2, w2)
           | (Inr u, s2, w2) \<Rightarrow> (Inr (), s2, log_msg Debug ''Cleaning Started!'' w2)))"

definition setWorkStatus :: "env \<Rightarrow> string \<Rightarrow> RoboVac \<Rightarrow> world \<Rightarrow> unit result" where
  "setWorkStatus env workStatus s w =
     doWork env (set_dps env [WORK_STATUS \<mapsto> VStr workStatus]) s w"

definition goHome :: "env \<Rightarrow> RoboVac \<Rightarrow> world \<Rightarrow> unit result" where
  "goHome env s w =
     (case getWorkStatus env True s w of
        (Inl e, s1, w1) \<Rightarrow> (Inl e, s1, w1)
      | (Inr workStatus, s1, w1) \<Rightarrow>
          (if workStatus = WorkStatus_COMPLETED \<or> workStatus = WorkStatus_CHARGING
           then (Inr (), s1, log_msg Debug ''RoboVac is already Home, workStatus = '' w1)
           else doWork env (set_dps env [GO_HOME \<mapsto> VBool True]) s1 w1))"

definition setFindRobot :: "env \<Rightarrow> bool \<Rightarrow> RoboVac \<Rightarrow> world \<Rightarrow> unit result" where
  "setFindRobot env state s w =
     doWork env (set_dps env [FIND_ROBOT \<mapsto> VBool state]) s w"

text \<open>\<^verbatim>\<open>formatStatus()\<close>: one log entry built from \<^verbatim>\<open>this.statuses.dps\<close>, which throws on \<^verbatim>\<open>null\<close>.\<close>

definition formatStatus :: "RoboVac \<Rightarrow> world \<Rightarrow> unit result" where
  "formatStatus s w =
     (case statuses s of
        None \<Rightarrow> (Inl TypeError, s, w)
      | Some st \<Rightarrow> (Inr (), s, log_msg Debug ''-- Status Start -- ... -- Status End --'' w))"

section \<open>The accessory adapter (index.ts)\<close>

text \<open>
  The fields of the accessory that its handlers use. \<open>roboVac\<close> is \<open>None\<close> until
  \<^verbatim>\<open>setup()\<close> has constructed a session. The registration of services and characteristics
  is wiring of the accessory framework and is left out.
\<close>

record accessory_config =
  cfg_name :: "string option"
  cfg_deviceId :: "string option"
  cfg_localKey :: "string option"
  cfg_ip :: "string option"

record accessory =
  name :: string
  config :: config
  roboVac :: "RoboVac option"

text \<open>
  A completion callback: the one the framework passed in, whose invocations the outside
  world sees, or the \<^verbatim>\<open>() => { }\<close> that \<^verbatim>\<open>getCleanState\<close> hands to itself.
\<close>

datatype callback = Caller | NoOp

definition invoke :: "callback \<Rightarrow> error option \<Rightarrow> hap_value option \<Rightarrow> world \<Rightarrow> world" where
  "invoke cb err v w = (case cb of Caller \<Rightarrow> act (Completed err v) w | NoOp \<Rightarrow> w)"

text \<open>
  \<^verbatim>\<open>this.roboVac.m(...)\<close>: a \<^verbatim>\<open>TypeError\<close> when there is no session yet; otherwise the call,
  on the session object the accessory holds.
\<close>

definition with_vac ::
  "accessory \<Rightarrow> world \<Rightarrow> (RoboVac \<Rightarrow> world \<Rightarrow> 'a result) \<Rightarrow> (error + 'a) \<times> accessory \<times> world" where
  "with_vac a w f =
     (case roboVac a of
        None \<Rightarrow> (Inl TypeError, a, w)
      | Some v \<Rightarrow> (case f v w of (r, v', w') \<Rightarrow> (r, a\<lparr>roboVac := Some v'\<rparr>, w')))"

text \<open>\<^verbatim>\<open>await sleep(ms)\<close>; the transport may emit events meanwhile.\<close>

definition sleep :: "env \<Rightarrow> int \<Rightarrow> accessory \<Rightarrow> world \<Rightarrow> accessory \<times> world" where
  "sleep env ms a w =
     (let w1 = act (Sleep ms) w in
      case roboVac a of
        None \<Rightarrow> (a, w1)
      | Some v \<Rightarrow> (case deliver (sleep_events env (trace w1)) v w1 of
                     (v', w2) \<Rightarrow> (a\<lparr>roboVac := Some v'\<rparr>, w2)))"

text \<open>
  \<^verbatim>\<open>async setup() { this.roboVac = new RoboVac(this.config, this.log);
  return await this.roboVac.getStatuses(); }\<close>
\<close>

definition setup_acc ::
  "env \<Rightarrow> accessory \<Rightarrow> world \<Rightarrow> (error + StatusResponse option) \<times> accessory \<times> world" where
  "setup_acc env a w =
     (case RoboVac_new env (config a) 2 of
        Inl e \<Rightarrow> (Inl e, a, w)
      | Inr v \<Rightarrow> (case getStatuses env False v w of
                     (r, v', w') \<Rightarrow> (r, a\<lparr>roboVac := Some v'\<rparr>, w')))"

text \<open>
  The constructor: it copies the configuration (the port is always 6668) and calls
  \<^verbatim>\<open>this.setup()\<close> without awaiting it, so a failure of \<^verbatim>\<open>setup\<close> is dropped. The call is
  run to its end here before the final log line.
\<close>

definition EufyRoboVacAccessory_new :: "env \<Rightarrow> accessory_config \<Rightarrow> world \<Rightarrow> accessory \<times> world" where
  "EufyRoboVacAccessory_new env c w =
     (let a = \<lparr>name = (case cfg_name c of None \<Rightarrow> ''Eufy RoboVac''
                        | Some n \<Rightarrow> if n = [] then ''Eufy RoboVac'' else n),
                config = \<lparr>deviceId = cfg_deviceId c, localKey = cfg_localKey c,
                           ip = cfg_ip c, port = 6668\<rparr>,
                roboVac = None\<rparr> in
      case setup_acc env a w of
        (r, a', w') \<Rightarrow> (a', log_msg Info '' finished initializing!'' w'))"

text \<open>
  \<^verbatim>\<open>getCleanState\<close>. In the \<^verbatim>\<open>catch\<close> branch it awaits \<^verbatim>\<open>setup()\<close> and then calls itself with
  an empty callback, without awaiting that call: the outer call returns whatever the inner
  one does. The first argument bounds the number of nested calls; \<open>None\<close> means the bound
  was reached.
\<close>

fun getCleanState ::
  "nat \<Rightarrow> env \<Rightarrow> callback \<Rightarrow> accessory \<Rightarrow> world \<Rightarrow> ((error + unit) \<times> accessory \<times> world) option" where
  "getCleanState 0 env cb a w = None"
| "getCleanState (Suc n) env cb a w =
     (case with_vac a (log_msg Debug ''getCleanState  for '' w) (getPlayPause env True) of
        (Inr cleanState, a1, w1) \<Rightarrow>
          Some (Inr (), a1, invoke cb None (Some (HBool cleanState))
                              (log_msg Debug ''getCleanState for  returned '' w1))
      | (Inl e, a1, w1) \<Rightarrow>
          (case setup_acc env a1 w1 of
             (Inl e2, a2, w2) \<Rightarrow> Some (Inl e2, a2, w2)
           | (Inr st, a2, w2) \<Rightarrow>
               (case getCleanState n env NoOp a2 w2 of
                  None \<Rightarrow> None
                | Some (r3, a3, w3) \<Rightarrow> Some (Inr (), a3, w3))))"

definition setCleanState ::
  "env \<Rightarrow> bool \<Rightarrow> callback \<Rightarrow> accessory \<Rightarrow> world \<Rightarrow> (error + unit) \<times> accessory \<times> world" where
  "setCleanState env state cb a w =
     (case with_vac a (log_msg Debug ''setCleanState for  set to '' w) (setPlayPause env state) of
        (Inl e, a1, w1) \<Rightarrow> (Inl e, a1, w1)
      | (Inr u, a1, w1) \<Rightarrow>
          (if \<not> state then
             (case sleep env 2000 a1 w1 of (a2, w2) \<Rightarrow>
                (case with_vac a2 w2 (goHome env) of
                   (Inl e, a3, w3) \<Rightarrow> (Inl e, a3, w3)
                 | (Inr u', a3, w3) \<Rightarrow> (Inr (), a3, invoke cb None None w3)))
           else (Inr (), a1, invoke cb None None w1)))"

definition getBatteryLevel ::
  "env \<Rightarrow> callback \<Rightarrow> accessory \<Rightarrow> world \<Rightarrow> (error + unit) \<times> accessory \<times> world" where
  "getBatteryLevel env cb a w =
     (case with_vac a (log_msg Debug ''getBatteryLevel for '' w) (getBatteyLevel env False) of
        (Inr n, a1, w1) \<Rightarrow> (Inr (), a1, invoke cb None (Some (HNum n)) w1)
      | (Inl e, a1, w1) \<Rightarrow>
          (Inr (), a1, invoke cb None (Some (HNum 0)) (log_msg Debug ''getBatteryLevel error; '' w1)))"

definition getChargingState ::
  "env \<Rightarrow> callback \<Rightarrow> accessory \<Rightarrow> world \<Rightarrow> (error + unit) \<times> accessory \<times> world" where
  "getChargingState env cb a w =
     (case with_vac a (log_msg Debug ''getChargingState for '' w) (getWorkStatus env False) of
        (Inr workStatus, a1, w1) \<Rightarrow>
          (Inr (), a1, invoke cb None
             (Some (if workStatus = WorkStatus_CHARGING then ChargingState_CHARGING
                    else ChargingState_NOT_CHARGEABLE)) w1)
      | (Inl e, a1, w1) \<Rightarrow>
          (Inr (), a1, invoke cb None (Some (HBool False))
                         (log_msg Debug ''getChargingState error; '' w1)))"

definition getStatusLowBattery ::
  "env \<Rightarrow> callback \<Rightarrow> accessory \<Rightarrow> world \<Rightarrow> (error + unit) \<times> accessory \<times> world" where
  "getStatusLowBattery env cb a w =
     (case with_vac a w (getBatteyLevel env False) of
        (Inr n, a1, w1) \<Rightarrow>
          (Inr (), a1, invoke cb None
             (Some (if n < 30 then StatusLowBattery_BATTERY_LEVEL_LOW
                    else StatusLowBattery_BATTERY_LEVEL_NORMAL)) w1)
      | (Inl e, a1, w1) \<Rightarrow> (Inr (), a1, invoke cb None (Some (HBool False)) w1))"

text \<open>
  The accessory's \<^verbatim>\<open>getFindRobot\<close> and \<^verbatim>\<open>setFindRobot\<close>; the suffix tells them from the
  session's methods of the same names.
\<close>

definition getFindRobot_acc ::
  "env \<Rightarrow> callback \<Rightarrow> accessory \<Rightarrow> world \<Rightarrow> (error + unit) \<times> accessory \<times> world" where
  "getFindRobot_acc env cb a w =
     (case with_vac a (log_msg Debug ''getFindRobot for '' w) (getFindRobot env False) of
        (Inr b, a1, w1) \<Rightarrow> (Inr (), a1, invoke cb None (Some (HBool b)) w1)
      | (Inl e, a1, w1) \<Rightarrow> (Inr (), a1, invoke cb None (Some (HBool False)) w1))"

definition setFindRobot_acc ::
  "env \<Rightarrow> bool \<Rightarrow> callback \<Rightarrow> accessory \<Rightarrow> world \<Rightarrow> (error + unit) \<times> accessory \<times> world" where
  "setFindRobot_acc env state cb a w =
     (case with_vac a (log_msg Debug ''setFindRobot for  set to '' w) (setFindRobot env state) of
        (Inl e, a1, w1) \<Rightarrow> (Inl e, a1, w1)
      | (Inr u, a1, w1) \<Rightarrow> (Inr (), a1, invoke cb None None w1))"

definition getErrorStatus ::
  "env \<Rightarrow> callback \<Rightarrow> accessory \<Rightarrow> world \<Rightarrow> (error + unit) \<times> accessory \<times> world" where
  "getErrorStatus env cb a w =
     (case with_vac a w (getErrorCode env False) of
        (Inr code, a1, w1) \<Rightarrow>
          (Inr (), a1, invoke cb None (Some (HBool (if code = ''no_error'' then False else True))) w1)
      | (Inl e, a1, w1) \<Rightarrow> (Inr (), a1, invoke cb None (Some (HBool False)) w1))"

definition identify :: "accessory \<Rightarrow> world \<Rightarrow> world" where
  "identify a w = log_msg Info ''Identify!'' w"

section \<open>Observations on traces\<close>

text \<open>The mappings written, the number of reads, and what the accessory itself did.\<close>

fun writes :: "action list \<Rightarrow> dp_data list" where
  "writes [] = []"
| "writes (ApiSet m d # xs) = d # writes xs"
| "writes (a # xs) = writes xs"

fun reads :: "action list \<Rightarrow> nat" where
  "reads [] = 0"
| "reads (ApiGet b # xs) = Suc (reads xs)"
| "reads (a # xs) = reads xs"

fun adapter_actions :: "action list \<Rightarrow> action list" where
  "adapter_actions [] = []"
| "adapter_actions (Sleep ms # xs) = Sleep ms # adapter_actions xs"
| "adapter_actions (Completed e v # xs) = Completed e v # adapter_actions xs"
| "adapter_actions (a # xs) = adapter_actions xs"

text \<open>What was done between two worlds.\<close>

definition new_actions :: "world \<Rightarrow> world \<Rightarrow> action list" where
  "new_actions w w' = drop (length (trace w)) (trace w')"

text \<open>
  The connection step with which \<^verbatim>\<open>doWork\<close> begins: discovery when needed, then
  \<^verbatim>\<open>connect\<close>.
\<close>

definition ensureConnected :: "env \<Rightarrow> RoboVac \<Rightarrow> world \<Rightarrow> unit result" where
  "ensureConnected env s w = (case discover env s w of (s1, w1) \<Rightarrow> connect env s1 w1)"

text \<open>A session for which that step has nothing to do: connected, device id and address known.\<close>

definition ready :: "RoboVac \<Rightarrow> bool" where
  "ready s = (connected s \<and> \<not> falsy (dev_id (api s)) \<and> \<not> falsy (dev_ip (api s)))"

text \<open>A call left the cached snapshot and its timestamp as they were.\<close>

definition keeps_cache :: "RoboVac \<Rightarrow> 'a result \<Rightarrow> bool" where
  "keeps_cache s r =
     (statuses (fst (snd r)) = statuses s \<and> lastStatusUpdate (fst (snd r)) = lastStatusUpdate s)"

text \<open>An operation that only talks to the transport: no delay, no completion callback.\<close>

definition quiet :: "action list \<Rightarrow> bool" where
  "quiet xs = (adapter_actions xs = [])"

section \<open>Example environments and states\<close>

text \<open>Two snapshots: docked and charging at 55 percent, and cleaning at 29 percent.\<close>

definition docked :: StatusResponse where
  "docked = \<lparr>devId = ''bf51dd0a5c3e9f2a11xyzq'',
             dps = \<lparr>dp_1 = True, dp_2 = False, dp_3 = ''forward'', dp_5 = ''auto'',
                    dp_15 = ''Charging'', dp_101 = False, dp_102 = ''Standard'', dp_103 = False,
                    dp_104 = 55, dp_106 = ''no_error''\<rparr>\<rparr>"

definition cleaning :: StatusResponse where
  "cleaning = \<lparr>devId = ''bf51dd0a5c3e9f2a11xyzq'',
               dps = \<lparr>dp_1 = True, dp_2 = True, dp_3 = ''forward'', dp_5 = ''auto'',
                      dp_15 = ''Running'', dp_101 = False, dp_102 = ''Standard'', dp_103 = False,
                      dp_104 = 29, dp_106 = ''no_error''\<rparr>\<rparr>"

text \<open>
  A transport constructor that checks its options the way the constructor of the transport
  library does: a \<^verbatim>\<open>TypeError\<close> when both id and address are missing, and a \<^verbatim>\<open>TypeError\<close>
  (\<^verbatim>\<open>Key is missing or incorrect.\<close>) when the key is missing or not 16 characters long.
\<close>

definition tuya_new_strict :: "tuya_opts \<Rightarrow> error + tuya_device" where
  "tuya_new_strict opts =
     (if falsy (opt_id opts) \<and> falsy (opt_ip opts) then Inl TypeError
      else case opt_key opts of
             None \<Rightarrow> Inl TypeError
           | Some k \<Rightarrow> if length k \<noteq> 16 then Inl TypeError
                      else Inr \<lparr>dev_id = opt_id opts, dev_ip = opt_ip opts\<rparr>)"

text \<open>The transport constructor of an environment rejects every empty or missing key.\<close>

definition checks_key :: "env \<Rightarrow> bool" where
  "checks_key env = (\<forall>opts. falsy (opt_key opts) \<longrightarrow> isl (tuya_new env opts))"

text \<open>
  A transport that answers every call, reporting the given snapshot; the clock advances one
  second per reading.
\<close>

definition env_up :: "StatusResponse \<Rightarrow> env" where
  "env_up st =
     \<lparr>tuya_new = tuya_new_strict,
      api_find = (\<lambda>h d. ([], None, d\<lparr>dev_ip := Some ''192.168.1.50''\<rparr>)),
      api_connect = (\<lambda>h. ([OnConnected], None)),
      api_disconnect = (\<lambda>h. ([OnDisconnected], None)),
      api_get = (\<lambda>h. ([OnData st], Inr st)),
      api_set = (\<lambda>h. ([], None)),
      sleep_events = (\<lambda>h. []),
      getTime = (\<lambda>k. 1700000000000 + 1000 * int k)\<rparr>"

text \<open>A device that cannot be reached: every call on the transport is rejected.\<close>

definition env_down :: env where
  "env_down =
     \<lparr>tuya_new = tuya_new_strict,
      api_find = (\<lambda>h d. ([], Some (TransportError ''find() timed out''), d)),
      api_connect = (\<lambda>h. ([OnError (TransportError ''EHOSTUNREACH'')],
                            Some (TransportError ''connection timed out''))),
      api_disconnect = (\<lambda>h. ([], None)),
      api_get = (\<lambda>h. ([], Inl (TransportError ''No connection has been made to the device.''))),
      api_set = (\<lambda>h. ([], Some (TransportError ''No connection has been made to the device.''))),
      sleep_events = (\<lambda>h. []),
      getTime = (\<lambda>k. 1700000000000 + 1000 * int k)\<rparr>"

text \<open>A device whose first read times out and that answers from then on.\<close>

definition env_flaky :: "StatusResponse \<Rightarrow> env" where
  "env_flaky st = (env_up st)\<lparr>api_get := (\<lambda>h. if reads h \<le> 1
        then ([], Inl (TransportError ''timeout waiting for status response''))
        else ([OnData st], Inr st))\<rparr>"

definition cfg0 :: config where
  "cfg0 = \<lparr>deviceId = Some ''bf51dd0a5c3e9f2a11xyzq'', localKey = Some ''0123456789abcdef'',
           ip = Some ''192.168.1.50'', port = 6668\<rparr>"

text \<open>The session as the constructor leaves it for \<open>cfg0\<close>, and an accessory holding it.\<close>

definition vac0 :: RoboVac where
  "vac0 = \<lparr>api = \<lparr>dev_id = Some ''bf51dd0a5c3e9f2a11xyzq'', dev_ip = Some ''192.168.1.50''\<rparr>,
           connected = False, statuses = None, lastStatusUpdate = None,
           maxStatusUpdateAge = 30000, timeoutDuration = 2\<rparr>"

text \<open>A connected session whose snapshot (battery 55) was captured 10 seconds ago.\<close>

definition vac_fresh :: RoboVac where
  "vac_fresh = vac0\<lparr>connected := True, statuses := Some docked,
                    lastStatusUpdate := Some 1699999990000\<rparr>"

definition acc0 :: accessory where
  "acc0 = \<lparr>name = ''Eufy RoboVac'', config = cfg0, roboVac = Some vac0\<rparr>"

definition world0 :: world where
  "world0 = \<lparr>trace = [], logs = [], ticks = 0\<rparr>"

section \<open>Traces and frames of the session's operations\<close>

lemma trace_log_msg: "trace (log_msg l m w) = trace w"
  by (simp add: log_msg_def)

lemma trace_act: "trace (act a w) = trace w @ [a]"
  by (simp add: act_def)

lemma writes_append: "writes (xs @ ys) = writes xs @ writes ys"
  by (induction xs rule: writes.induct) simp_all

lemma reads_append: "reads (xs @ ys) = reads xs + reads ys"
  by (induction xs rule: reads.induct) simp_all

lemma adapter_actions_append: "adapter_actions (xs @ ys) = adapter_actions xs @ adapter_actions ys"
  by (induction xs rule: adapter_actions.induct) simp_all

lemma quiet_append: "quiet (xs @ ys) = (quiet xs \<and> quiet ys)"
  by (simp add: quiet_def adapter_actions_append)

lemma quiet_Nil: "quiet []"
  by (simp add: quiet_def)

lemma new_actions_append: "trace w' = trace w @ xs \<Longrightarrow> new_actions w w' = xs"
  by (simp add: new_actions_def)

lemma new_actions_log_msg: "new_actions w (log_msg l m w') = new_actions w w'"
  by (simp add: new_actions_def trace_log_msg)

lemma doWork_ensureConnected:
  "doWork env work s w =
     (case ensureConnected env s w of
        (Inl e, s2, w2) \<Rightarrow> (Inl e, s2, w2)
      | (Inr u, s2, w2) \<Rightarrow> work s2 w2)"
  by (simp add: doWork_def ensureConnected_def split: prod.splits)

lemma ensureConnected_ready: "ready s \<Longrightarrow> ensureConnected env s w = (Inr (), s, w)"
  by (simp add: ready_def ensureConnected_def discover_def connect_def)

lemma on_event_frame:
  assumes "on_event e s w = (s', w')"
  shows "trace w' = trace w \<and> ticks w' = ticks w \<and> statuses s' = statuses s \<and>
         lastStatusUpdate s' = lastStatusUpdate s \<and> maxStatusUpdateAge s' = maxStatusUpdateAge s \<and>
         timeoutDuration s' = timeoutDuration s \<and> api s' = api s"
  using assms by (cases e) (auto simp: log_msg_def)

lemma deliver_frame:
  assumes "deliver evs s w = (s', w')"
  shows "trace w' = trace w \<and> ticks w' = ticks w \<and> statuses s' = statuses s \<and>
         lastStatusUpdate s' = lastStatusUpdate s \<and> maxStatusUpdateAge s' = maxStatusUpdateAge s \<and>
         timeoutDuration s' = timeoutDuration s \<and> api s' = api s"
  using assms
proof (induction evs arbitrary: s w)
  case Nil
  then show ?case by simp
next
  case (Cons e es)
  obtain s1 w1 where ev: "on_event e s w = (s1, w1)" by (cases "on_event e s w")
  with Cons.prems have "deliver es s1 w1 = (s', w')" by simp
  from Cons.IH [OF this] on_event_frame [OF ev] show ?case by simp
qed

lemma deliver_fst_cache:
  "statuses (fst (deliver evs s w)) = statuses s \<and>
   lastStatusUpdate (fst (deliver evs s w)) = lastStatusUpdate s"
proof -
  obtain s1 w1 where dl: "deliver evs s w = (s1, w1)" by (cases "deliver evs s w")
  from deliver_frame [OF dl] dl show ?thesis by simp
qed

lemma connect_frame:
  assumes "connect env s w = (r, s', w')"
  shows "trace w' = trace w @ (if connected s then [] else [ApiConnect]) \<and> ticks w' = ticks w \<and>
         statuses s' = statuses s \<and> lastStatusUpdate s' = lastStatusUpdate s \<and>
         maxStatusUpdateAge s' = maxStatusUpdateAge s \<and>
         timeoutDuration s' = timeoutDuration s \<and> api s' = api s"
  using assms
  by (auto simp: connect_def Let_def act_def log_msg_def split: if_splits prod.splits option.splits
      dest!: deliver_frame)

lemma discover_frame:
  assumes "discover env s w = (s', w')"
  shows "trace w' = trace w @ (if falsy (dev_id (api s)) \<or> falsy (dev_ip (api s))
                               then [ApiFind (timeoutDuration s)] else []) \<and>
         ticks w' = ticks w \<and> statuses s' = statuses s \<and>
         lastStatusUpdate s' = lastStatusUpdate s \<and>
         maxStatusUpdateAge s' = maxStatusUpdateAge s \<and>
         timeoutDuration s' = timeoutDuration s"
  using assms
  by (auto simp: discover_def Let_def act_def log_msg_def split: if_splits prod.splits option.splits
      dest!: deliver_frame)

lemma ensureConnected_frame:
  assumes "ensureConnected env s w = (r, s', w')"
  shows "(\<exists>xs. trace w' = trace w @ xs \<and> writes xs = [] \<and> reads xs = 0 \<and> quiet xs) \<and>
         ticks w' = ticks w \<and> statuses s' = statuses s \<and>
         lastStatusUpdate s' = lastStatusUpdate s \<and>
         maxStatusUpdateAge s' = maxStatusUpdateAge s \<and>
         timeoutDuration s' = timeoutDuration s"
proof -
  obtain s1 w1 where d: "discover env s w = (s1, w1)" by (cases "discover env s w")
  with assms have c: "connect env s1 w1 = (r, s', w')" by (simp add: ensureConnected_def)
  from discover_frame [OF d] connect_frame [OF c] show ?thesis
    by (auto simp: quiet_def split: if_splits)
qed

lemma set_dps_frame:
  assumes "set_dps env data s w = (r, s', w')"
  shows "trace w' = trace w @ [ApiSet True data] \<and> ticks w' = ticks w \<and>
         statuses s' = statuses s \<and> lastStatusUpdate s' = lastStatusUpdate s"
  using assms
  by (auto simp: set_dps_def Let_def act_def log_msg_def split: prod.splits option.splits
      dest!: deliver_frame)

lemma readStatuses_cases:
  assumes "readStatuses env s w = (r, s', w')"
  shows "trace w' = trace w @ [ApiGet True] \<and>
         maxStatusUpdateAge s' = maxStatusUpdateAge s \<and>
         (case snd (api_get env (trace w')) of
            Inl e \<Rightarrow> r = Inl e \<and> statuses s' = statuses s \<and>
                     lastStatusUpdate s' = lastStatusUpdate s \<and> ticks w' = ticks w
          | Inr st \<Rightarrow> r = Inr (Some st) \<and> statuses s' = Some st \<and>
                      lastStatusUpdate s' = Some (getTime env (ticks w)) \<and>
                      ticks w' = Suc (ticks w))"
  using assms
  by (auto simp: readStatuses_def Let_def act_def now_def split: prod.splits sum.splits
      dest!: deliver_frame)

lemma doWork_read_cases:
  assumes c: "ensureConnected env s w = (r0, s0, w0)"
    and g: "doWork env (readStatuses env) s w = (r, s', w')"
  shows "case r0 of
           Inl e \<Rightarrow> r = Inl e \<and> s' = s0 \<and> w' = w0
         | Inr u \<Rightarrow> trace w' = trace w0 @ [ApiGet True] \<and>
             (case snd (api_get env (trace w')) of
                Inl e \<Rightarrow> r = Inl e \<and> statuses s' = statuses s \<and>
                         lastStatusUpdate s' = lastStatusUpdate s \<and> ticks w' = ticks w
              | Inr st \<Rightarrow> r = Inr (Some st) \<and> statuses s' = Some st \<and>
                          lastStatusUpdate s' = Some (getTime env (ticks w)) \<and>
                          ticks w' = Suc (ticks w))"
proof (cases r0)
  case (Inl e)
  with c g show ?thesis by (simp add: doWork_ensureConnected)
next
  case (Inr u)
  with c g have rd: "readStatuses env s0 w0 = (r, s', w')"
    by (simp add: doWork_ensureConnected)
  from ensureConnected_frame [OF c] readStatuses_cases [OF rd] Inr show ?thesis
    by (auto split: sum.splits)
qed

text \<open>
  The three ways a status query ends: the cached snapshot is returned; the connection step
  throws; a read is issued, and fails or replaces the cache.
\<close>

lemma getStatuses_cases:
  assumes g: "getStatuses env force s w = (r, s', w')"
  shows "(\<not> force \<and>
            \<not> getTime env (ticks w) - to_number (lastStatusUpdate s) > maxStatusUpdateAge s \<and>
            r = Inr (statuses s) \<and> s' = s \<and> w' = w\<lparr>ticks := Suc (ticks w)\<rparr>)
       \<or> ((force \<or> getTime env (ticks w) - to_number (lastStatusUpdate s) > maxStatusUpdateAge s) \<and>
            (\<exists>xs. trace w' = trace w @ xs \<and> reads xs = 0 \<and> writes xs = [] \<and> quiet xs) \<and>
            (\<exists>e. r = Inl e) \<and> statuses s' = statuses s \<and>
            lastStatusUpdate s' = lastStatusUpdate s)
       \<or> ((force \<or> getTime env (ticks w) - to_number (lastStatusUpdate s) > maxStatusUpdateAge s) \<and>
            (\<exists>xs. trace w' = trace w @ xs @ [ApiGet True] \<and> reads xs = 0 \<and> writes xs = [] \<and>
                  quiet xs) \<and>
            (case snd (api_get env (trace w')) of
               Inl e \<Rightarrow> r = Inl e \<and> statuses s' = statuses s \<and>
                        lastStatusUpdate s' = lastStatusUpdate s
             | Inr st \<Rightarrow> r = Inr (Some st) \<and> statuses s' = Some st \<and>
                         lastStatusUpdate s' = Some (getTime env (ticks w' - 1))))"
proof (cases "force \<or> getTime env (ticks w) - to_number (lastStatusUpdate s) > maxStatusUpdateAge s")
  case False
  with g show ?thesis
    by (auto simp: getStatuses_def now_def)
next
  case True
  define w0 where "w0 = (if force then w else w\<lparr>ticks := Suc (ticks w)\<rparr>)"
  have tr0: "trace w0 = trace w" by (simp add: w0_def)
  from True g have dw: "doWork env (readStatuses env) s w0 = (r, s', w')"
    by (auto simp: getStatuses_def now_def w0_def split: if_splits)
  obtain r0 s0 w1 where c: "ensureConnected env s w0 = (r0, s0, w1)"
    by (cases "ensureConnected env s w0") auto
  from ensureConnected_frame [OF c] obtain xs where
    xs: "trace w1 = trace w @ xs" "writes xs = []" "reads xs = 0" "quiet xs"
    using tr0 by auto
  show ?thesis
  proof (cases r0)
    case (Inl e)
    with doWork_read_cases [OF c dw] have "r = Inl e" "s' = s0" "w' = w1" by simp_all
    with ensureConnected_frame [OF c] xs True show ?thesis by auto
  next
    case (Inr u)
    note both = doWork_read_cases [OF c dw, unfolded Inr sum.case]
    from both have t: "trace w' = trace w1 @ [ApiGet True]" by (rule conjunct1)
    from both have k: "case snd (api_get env (trace w')) of
                Inl e \<Rightarrow> r = Inl e \<and> statuses s' = statuses s \<and>
                         lastStatusUpdate s' = lastStatusUpdate s \<and> ticks w' = ticks w0
              | Inr st \<Rightarrow> r = Inr (Some st) \<and> statuses s' = Some st \<and>
                          lastStatusUpdate s' = Some (getTime env (ticks w0)) \<and>
                          ticks w' = Suc (ticks w0)"
      by (rule conjunct2)
    from t xs have "\<exists>xs. trace w' = trace w @ xs @ [ApiGet True] \<and> reads xs = 0 \<and>
        writes xs = [] \<and> quiet xs"
      by auto
    moreover from k have "case snd (api_get env (trace w')) of
               Inl e \<Rightarrow> r = Inl e \<and> statuses s' = statuses s \<and>
                        lastStatusUpdate s' = lastStatusUpdate s
             | Inr st \<Rightarrow> r = Inr (Some st) \<and> statuses s' = Some st \<and>
                         lastStatusUpdate s' = Some (getTime env (ticks w' - 1))"
      by (auto split: sum.splits)
    ultimately show ?thesis using True by blast
  qed
qed

lemma getStatuses_returns_cache:
  assumes "getStatuses env force s w = (Inr r, s', w')"
  shows "statuses s' = r"
  using getStatuses_cases [OF assms] by (auto split: sum.splits)

lemma getStatuses_trace:
  assumes g: "getStatuses env force s w = (r, s', w')"
  shows "\<exists>xs. trace w' = trace w @ xs \<and> writes xs = [] \<and> reads xs \<le> 1 \<and> quiet xs"
proof -
  from getStatuses_cases [OF g] consider
      "w' = w\<lparr>ticks := Suc (ticks w)\<rparr>"
    | xs where "trace w' = trace w @ xs" "reads xs = 0" "writes xs = []" "quiet xs"
    | xs where "trace w' = trace w @ xs @ [ApiGet True]" "reads xs = 0" "writes xs = []"
        "quiet xs"
    by blast
  then show ?thesis
  proof cases
    case 1
    then show ?thesis by (simp add: quiet_Nil)
  next
    case 2
    then show ?thesis by auto
  next
    case 3
    then have "writes (xs @ [ApiGet True]) = []" "reads (xs @ [ApiGet True]) \<le> 1"
      "quiet (xs @ [ApiGet True])"
      by (simp_all add: writes_append reads_append quiet_append) (simp add: quiet_def)
    with 3 show ?thesis by blast
  qed
qed

lemma getStatuses_read_count:
  assumes g: "getStatuses env force s w = (r, s', w')"
    and n: "reads (new_actions w w') = 1"
  shows "\<exists>xs. trace w' = trace w @ xs @ [ApiGet True]"
proof -
  from getStatuses_cases [OF g] consider
      "w' = w\<lparr>ticks := Suc (ticks w)\<rparr>"
    | xs where "trace w' = trace w @ xs" "reads xs = 0"
    | xs where "trace w' = trace w @ xs @ [ApiGet True]"
    by blast
  then show ?thesis
  proof cases
    case 1
    then have "new_actions w w' = []" by (simp add: new_actions_def)
    with n show ?thesis by simp
  next
    case 2
    then have "new_actions w w' = xs" by (simp add: new_actions_append)
    with n 2 show ?thesis by simp
  next
    case 3
    then show ?thesis by blast
  qed
qed

lemma getStatuses_forced_value:
  assumes g: "getStatuses env True s w = (Inr x, s', w')"
  shows "\<exists>st. x = Some st \<and> snd (api_get env (trace w')) = Inr st \<and>
              reads (new_actions w w') = 1 \<and> writes (new_actions w w') = []"
proof -
  from g have dw: "doWork env (readStatuses env) s w = (Inr x, s', w')"
    by (simp add: getStatuses_def)
  obtain r0 s0 w0 where c: "ensureConnected env s w = (r0, s0, w0)"
    by (cases "ensureConnected env s w") auto
  from ensureConnected_frame [OF c] obtain xs where
    xs: "trace w0 = trace w @ xs" "writes xs = []" "reads xs = 0" by blast
  show ?thesis
  proof (cases r0)
    case (Inl e)
    from doWork_read_cases [OF c dw, unfolded Inl sum.case] show ?thesis by simp
  next
    case (Inr u)
    note both = doWork_read_cases [OF c dw, unfolded Inr sum.case]
    from both have t: "trace w' = trace w0 @ [ApiGet True]" by (rule conjunct1)
    with xs have "new_actions w w' = xs @ [ApiGet True]" by (simp add: new_actions_append)
    with xs have n: "reads (new_actions w w') = 1" "writes (new_actions w w') = []"
      by (simp_all add: writes_append reads_append)
    show ?thesis
    proof (cases "snd (api_get env (trace w'))")
      case (Inl e)
      from both [THEN conjunct2, unfolded Inl sum.case] show ?thesis by simp
    next
      case (Inr st)
      from both [THEN conjunct2, unfolded Inr sum.case] have "x = Some st" by simp
      with n Inr show ?thesis by simp
    qed
  qed
qed

lemma doWork_set_cases:
  assumes c: "ensureConnected env s w = (r0, s0, w0)"
    and d: "doWork env (set_dps env data) s w = (r, s', w')"
  shows "(case r0 of
            Inl e \<Rightarrow> r = Inl e \<and> s' = s0 \<and> w' = w0 \<and> writes (new_actions w w') = []
          | Inr u \<Rightarrow> trace w' = trace w0 @ [ApiSet True data] \<and>
                     writes (new_actions w w') = [data]) \<and>
         reads (new_actions w w') = 0 \<and>
         statuses s' = statuses s \<and> lastStatusUpdate s' = lastStatusUpdate s"
proof -
  from ensureConnected_frame [OF c] obtain xs where
    xs: "trace w0 = trace w @ xs" "writes xs = []" "reads xs = 0" by blast
  then have n0: "new_actions w w0 = xs" by (simp add: new_actions_append)
  show ?thesis
  proof (cases r0)
    case (Inl e)
    with c d have "r = Inl e" "s' = s0" "w' = w0" by (simp_all add: doWork_ensureConnected)
    with Inl n0 xs ensureConnected_frame [OF c] show ?thesis by simp
  next
    case (Inr u)
    with c d have st: "set_dps env data s0 w0 = (r, s', w')"
      by (simp add: doWork_ensureConnected)
    from set_dps_frame [OF st] xs have "trace w' = trace w @ xs @ [ApiSet True data]" by simp
    then have "new_actions w w' = xs @ [ApiSet True data]" by (simp add: new_actions_append)
    with xs have "writes (new_actions w w') = [data]" "reads (new_actions w w') = 0"
      by (simp_all add: writes_append reads_append)
    with Inr set_dps_frame [OF st] ensureConnected_frame [OF c] show ?thesis by simp
  qed
qed

lemma doWork_set_trace:
  assumes d: "doWork env (set_dps env data) s w = (r, s', w')"
  shows "\<exists>ys. trace w' = trace w @ ys \<and> reads ys = 0 \<and> quiet ys \<and>
           writes ys = (case fst (ensureConnected env s w) of Inl e \<Rightarrow> [] | Inr u \<Rightarrow> [data])"
proof -
  obtain r0 s0 w0 where c: "ensureConnected env s w = (r0, s0, w0)"
    by (cases "ensureConnected env s w") auto
  from ensureConnected_frame [OF c] obtain xs where
    xs: "trace w0 = trace w @ xs" "writes xs = []" "reads xs = 0" "quiet xs" by blast
  show ?thesis
  proof (cases r0)
    case (Inl e)
    with doWork_set_cases [OF c d] have "w' = w0" by simp
    with xs c Inl show ?thesis by simp
  next
    case (Inr u)
    with doWork_set_cases [OF c d] have "trace w' = trace w0 @ [ApiSet True data]" by simp
    with xs have "trace w' = trace w @ (xs @ [ApiSet True data])" by simp
    moreover from xs have "writes (xs @ [ApiSet True data]) = [data]"
      "reads (xs @ [ApiSet True data]) = 0" "quiet (xs @ [ApiSet True data])"
      by (simp_all add: writes_append reads_append quiet_append) (simp add: quiet_def)
    ultimately show ?thesis using c Inr by auto
  qed
qed

lemma doWork_set_writes:
  "writes (new_actions w (snd (snd (doWork env (set_dps env data) s w)))) =
     (case fst (ensureConnected env s w) of Inl e \<Rightarrow> [] | Inr u \<Rightarrow> [data])"
proof -
  obtain r0 s0 w0 where c: "ensureConnected env s w = (r0, s0, w0)"
    by (cases "ensureConnected env s w") auto
  obtain r s' w' where d: "doWork env (set_dps env data) s w = (r, s', w')"
    by (cases "doWork env (set_dps env data) s w") auto
  from doWork_set_cases [OF c d] c d show ?thesis by (cases r0) auto
qed

lemma doWork_set_reads:
  "reads (new_actions w (snd (snd (doWork env (set_dps env data) s w)))) = 0"
proof -
  obtain r0 s0 w0 where c: "ensureConnected env s w = (r0, s0, w0)"
    by (cases "ensureConnected env s w") auto
  obtain r s' w' where d: "doWork env (set_dps env data) s w = (r, s', w')"
    by (cases "doWork env (set_dps env data) s w") auto
  from doWork_set_cases [OF c d] d show ?thesis by simp
qed

lemma project_snd: "snd (project f x) = snd x"
  by (cases x) (auto simp: project_def split: sum.splits option.splits)

lemma project_Inr:
  assumes "project f x = (Inr v, s', w')"
  shows "\<exists>st. x = (Inr (Some st), s', w') \<and> v = f (dps st)"
  using assms by (cases x) (auto simp: project_def split: sum.splits option.splits)

section \<open>The write operation\<close>

text \<open>
  C6. Whatever mapping of data-point codes to values is passed to the write operation, the
  transport receives it in one \<^verbatim>\<open>api.set\<close> call with \<^verbatim>\<open>multiple: true\<close> carrying the whole
  mapping: the write adds exactly that one action to the trace, also when the transport
  then rejects it.
\<close>

theorem set_single_message:
  "trace (snd (snd (set_dps env data s w))) = trace w @ [ApiSet True data]"
proof -
  obtain r s' w' where st: "set_dps env data s w = (r, s', w')"
    by (cases "set_dps env data s w") auto
  from set_dps_frame [OF st] st show ?thesis by simp
qed

section \<open>The status cache\<close>

text \<open>
  C4. While the age of the cached snapshot (the clock minus the capture timestamp) is below
  the freshness window, a query with \<open>force = False\<close> returns the cached snapshot and does
  nothing else than read the clock: the session and the trace are unchanged. So a second
  query within the window returns what the first one returned. And when a query issued a
  read that the transport answered with a snapshot, that snapshot is what the query returns
  and what the cache holds afterwards, stamped with the clock as read after the answer.
  The window of every session the constructor builds is 30000 ms.
\<close>

theorem getStatuses_cached:
  "(getTime env (ticks w) - to_number (lastStatusUpdate s) < maxStatusUpdateAge s \<longrightarrow>
      getStatuses env False s w = (Inr (statuses s), s, w\<lparr>ticks := Suc (ticks w)\<rparr>))
   \<and> (getStatuses env force s w = (Inr r, s1, w1) \<and>
        getTime env (ticks w1) - to_number (lastStatusUpdate s1) < maxStatusUpdateAge s1 \<longrightarrow>
      getStatuses env False s1 w1 = (Inr r, s1, w1\<lparr>ticks := Suc (ticks w1)\<rparr>))
   \<and> (getStatuses env force s w = (res, s', w') \<and> reads (new_actions w w') = 1 \<and>
        snd (api_get env (trace w')) = Inr st \<longrightarrow>
      res = Inr (Some st) \<and> statuses s' = Some st \<and>
      lastStatusUpdate s' = Some (getTime env (ticks w' - 1)))
   \<and> (RoboVac_new env cfg timeout = Inr v \<longrightarrow> maxStatusUpdateAge v = 30000)"
proof (intro conjI impI)
  assume "RoboVac_new env cfg timeout = Inr v"
  then show "maxStatusUpdateAge v = 30000"
    by (auto simp: RoboVac_new_def split: if_splits sum.splits)
next
  assume "getTime env (ticks w) - to_number (lastStatusUpdate s) < maxStatusUpdateAge s"
  then show "getStatuses env False s w = (Inr (statuses s), s, w\<lparr>ticks := Suc (ticks w)\<rparr>)"
    by (simp add: getStatuses_def now_def)
next
  assume a: "getStatuses env force s w = (Inr r, s1, w1) \<and>
        getTime env (ticks w1) - to_number (lastStatusUpdate s1) < maxStatusUpdateAge s1"
  then have "statuses s1 = r" using getStatuses_returns_cache by blast
  with a show "getStatuses env False s1 w1 = (Inr r, s1, w1\<lparr>ticks := Suc (ticks w1)\<rparr>)"
    by (simp add: getStatuses_def now_def)
next
  assume a: "getStatuses env force s w = (res, s', w') \<and> reads (new_actions w w') = 1 \<and>
        snd (api_get env (trace w')) = Inr st"
  then have g: "getStatuses env force s w = (res, s', w')"
    and n: "reads (new_actions w w') = 1"
    and rep: "snd (api_get env (trace w')) = Inr st" by simp_all
  from getStatuses_read_count [OF g n] obtain ys where ys: "trace w' = trace w @ ys @ [ApiGet True]"
    by blast
  from getStatuses_cases [OF g] consider
      "trace w' = trace w"
    | xs where "trace w' = trace w @ xs" "reads xs = 0"
    | "case snd (api_get env (trace w')) of
               Inl e \<Rightarrow> res = Inl e \<and> statuses s' = statuses s \<and>
                        lastStatusUpdate s' = lastStatusUpdate s
             | Inr st \<Rightarrow> res = Inr (Some st) \<and> statuses s' = Some st \<and>
                         lastStatusUpdate s' = Some (getTime env (ticks w' - 1))"
    by auto
  then have "res = Inr (Some st) \<and> statuses s' = Some st \<and>
      lastStatusUpdate s' = Some (getTime env (ticks w' - 1))"
  proof cases
    case 1
    with ys show ?thesis by simp
  next
    case 2
    with ys have "xs = ys @ [ApiGet True]" by simp
    with 2 show ?thesis by (simp add: reads_append)
  next
    case 3
    with rep show ?thesis by simp
  qed
  then show "res = Inr (Some st)" "statuses s' = Some st"
    "lastStatusUpdate s' = Some (getTime env (ticks w' - 1))" by simp_all
qed

text \<open>Evaluating the model on the examples.\<close>

lemmas session_defs =
  getStatuses_def doWork_def discover_def connect_def readStatuses_def set_dps_def now_def
  act_def log_msg_def falsy_def to_number_def project_def Let_def
  getWorkStatus_def getBatteyLevel_def getPlayPause_def getFindRobot_def getErrorCode_def
  goHome_def setPlayPause_def play_def pause_def ensureConnected_def new_actions_def
  RoboVac_new_def tuya_options_def ready_def WorkStatus_COMPLETED_def WorkStatus_CHARGING_def

lemmas example_defs =
  env_up_def env_down_def env_flaky_def vac0_def vac_fresh_def world0_def docked_def cleaning_def
  tuya_new_strict_def
  cfg0_def acc0_def

theorem getStatuses_cached_witness:
  "getTime env_down (ticks world0) - to_number (lastStatusUpdate vac_fresh)
     < maxStatusUpdateAge vac_fresh \<and>
   getStatuses env_down False vac_fresh world0 =
     (Inr (Some docked), vac_fresh, world0\<lparr>ticks := 1\<rparr>) \<and>
   getStatuses env_down False vac_fresh (world0\<lparr>ticks := 1\<rparr>) =
     (Inr (Some docked), vac_fresh, world0\<lparr>ticks := 2\<rparr>) \<and>
   fst (getBatteyLevel env_down False vac_fresh world0) = Inr 55 \<and>
   reads (new_actions world0 (snd (snd (getStatuses (env_up docked) False vac0 world0)))) = 1 \<and>
   fst (getStatuses (env_up docked) False vac0 world0) = Inr (Some docked) \<and>
   statuses (fst (snd (getStatuses (env_up docked) False vac0 world0))) = Some docked \<and>
   lastStatusUpdate (fst (snd (getStatuses (env_up docked) False vac0 world0))) =
     Some 1700000001000 \<and>
   RoboVac_new (env_up docked) cfg0 2 = Inr vac0 \<and> maxStatusUpdateAge vac0 = 30000"
  using getStatuses_cached [of env_down world0 vac_fresh False "Some docked" vac_fresh
      "world0\<lparr>ticks := 1\<rparr>" "Inr (Some docked)" vac_fresh "world0\<lparr>ticks := 1\<rparr>" docked]
    getStatuses_cached [of "env_up docked" world0 vac0 False "Some docked"
      "fst (snd (getStatuses (env_up docked) False vac0 world0))"
      "snd (snd (getStatuses (env_up docked) False vac0 world0))"
      "fst (getStatuses (env_up docked) False vac0 world0)"
      "fst (snd (getStatuses (env_up docked) False vac0 world0))"
      "snd (snd (getStatuses (env_up docked) False vac0 world0))" docked cfg0 2 vac0]
  by (simp add: session_defs example_defs)

section \<open>Forced queries\<close>

lemma on_event_cache:
  "on_event e (s\<lparr>statuses := c, lastStatusUpdate := t\<rparr>) w =
     (case on_event e s w of (s', w') \<Rightarrow> (s'\<lparr>statuses := c, lastStatusUpdate := t\<rparr>, w'))"
  by (cases e) simp_all

lemma deliver_cache:
  "deliver evs (s\<lparr>statuses := c, lastStatusUpdate := t\<rparr>) w =
     (case deliver evs s w of (s', w') \<Rightarrow> (s'\<lparr>statuses := c, lastStatusUpdate := t\<rparr>, w'))"
proof (induction evs arbitrary: s w)
  case Nil
  show ?case by simp
next
  case (Cons e es)
  obtain s1 w1 where ev: "on_event e s w = (s1, w1)" by (cases "on_event e s w")
  then show ?case by (simp add: on_event_cache Cons.IH)
qed

lemma connect_cache:
  "connect env (s\<lparr>statuses := c, lastStatusUpdate := t\<rparr>) w =
     (case connect env s w of (r, s', w') \<Rightarrow> (r, s'\<lparr>statuses := c, lastStatusUpdate := t\<rparr>, w'))"
  by (simp add: connect_def Let_def deliver_cache split: prod.splits option.splits)

lemma discover_cache:
  "discover env (s\<lparr>statuses := c, lastStatusUpdate := t\<rparr>) w =
     (case discover env s w of (s', w') \<Rightarrow> (s'\<lparr>statuses := c, lastStatusUpdate := t\<rparr>, w'))"
proof -
  have sw: "\<And>d. s\<lparr>statuses := c, lastStatusUpdate := t, api := d\<rparr> =
                 s\<lparr>api := d, statuses := c, lastStatusUpdate := t\<rparr>" by simp
  show ?thesis
    by (simp add: discover_def Let_def sw deliver_cache split: prod.splits option.splits)
qed

lemma ensureConnected_cache:
  "ensureConnected env (s\<lparr>statuses := c, lastStatusUpdate := t\<rparr>) w =
     (case ensureConnected env s w of (r, s', w') \<Rightarrow>
        (r, s'\<lparr>statuses := c, lastStatusUpdate := t\<rparr>, w'))"
  by (simp add: ensureConnected_def discover_cache connect_cache split: prod.splits)

lemma readStatuses_cache:
  "readStatuses env (s\<lparr>statuses := c, lastStatusUpdate := t\<rparr>) w =
     (case readStatuses env s w of
        (Inl e, s', w') \<Rightarrow> (Inl e, s'\<lparr>statuses := c, lastStatusUpdate := t\<rparr>, w')
      | (Inr x, s', w') \<Rightarrow> (Inr x, s', w'))"
  by (simp add: readStatuses_def Let_def deliver_cache split: prod.splits sum.splits)

lemma getStatuses_force_cache:
  "getStatuses env True (s\<lparr>statuses := c, lastStatusUpdate := t\<rparr>) w =
     (case getStatuses env True s w of
        (Inl e, s', w') \<Rightarrow> (Inl e, s'\<lparr>statuses := c, lastStatusUpdate := t\<rparr>, w')
      | (Inr x, s', w') \<Rightarrow> (Inr x, s', w'))"
  by (simp add: getStatuses_def doWork_ensureConnected ensureConnected_cache readStatuses_cache
      split: prod.splits sum.splits)

text \<open>
  C5. A query with \<open>force = True\<close> never looks at the cache or the clock. It runs the
  connection step (discovery when the address is unknown, connect when not connected) and
  then issues exactly one full-schema read; what it returns is the outcome of that read:
  the snapshot the transport answered with, which also replaces the cache, or the read's
  error, with the cache untouched. Only when the connection step itself throws is no read
  issued, and that error is what the caller gets. Whatever the cache held before, fresh or
  not, the value returned is the same. On a session that is connected and knows its device,
  the read is the one action of the call.
\<close>

theorem getStatuses_force_reads:
  "(case ensureConnected env s w of
      (Inl e, s0, w0) \<Rightarrow>
        getStatuses env True s w = (Inl e, s0, w0) \<and> reads (new_actions w w0) = 0
    | (Inr u, s0, w0) \<Rightarrow>
        (case getStatuses env True s w of (r, s', w') \<Rightarrow>
           trace w' = trace w0 @ [ApiGet True] \<and> reads (new_actions w w') = 1 \<and>
           (case snd (api_get env (trace w')) of
              Inl e \<Rightarrow> r = Inl e \<and> statuses s' = statuses s \<and>
                       lastStatusUpdate s' = lastStatusUpdate s
            | Inr st \<Rightarrow> r = Inr (Some st) \<and> statuses s' = Some st \<and>
                        lastStatusUpdate s' = Some (getTime env (ticks w)))))
   \<and> getStatuses env True (s\<lparr>statuses := c, lastStatusUpdate := t\<rparr>) w =
       (case getStatuses env True s w of
          (Inl e, s', w') \<Rightarrow> (Inl e, s'\<lparr>statuses := c, lastStatusUpdate := t\<rparr>, w')
        | (Inr x, s', w') \<Rightarrow> (Inr x, s', w'))
   \<and> (ready s \<longrightarrow>
        trace (snd (snd (getStatuses env True s w))) = trace w @ [ApiGet True] \<and>
        reads (new_actions w (snd (snd (getStatuses env True s w)))) = 1)"
proof (intro conjI impI)
  obtain r0 s0 w0 where c: "ensureConnected env s w = (r0, s0, w0)"
    by (cases "ensureConnected env s w") auto
  obtain r s' w' where g: "getStatuses env True s w = (r, s', w')"
    by (cases "getStatuses env True s w") auto
  then have dw: "doWork env (readStatuses env) s w = (r, s', w')"
    by (simp add: getStatuses_def)
  from ensureConnected_frame [OF c] obtain xs where
    xs: "trace w0 = trace w @ xs" "reads xs = 0" by blast
  then have n0: "new_actions w w0 = xs" by (simp add: new_actions_append)
  show "case ensureConnected env s w of
      (Inl e, s0, w0) \<Rightarrow>
        getStatuses env True s w = (Inl e, s0, w0) \<and> reads (new_actions w w0) = 0
    | (Inr u, s0, w0) \<Rightarrow>
        (case getStatuses env True s w of (r, s', w') \<Rightarrow>
           trace w' = trace w0 @ [ApiGet True] \<and> reads (new_actions w w') = 1 \<and>
           (case snd (api_get env (trace w')) of
              Inl e \<Rightarrow> r = Inl e \<and> statuses s' = statuses s \<and>
                       lastStatusUpdate s' = lastStatusUpdate s
            | Inr st \<Rightarrow> r = Inr (Some st) \<and> statuses s' = Some st \<and>
                        lastStatusUpdate s' = Some (getTime env (ticks w))))"
  proof (cases r0)
    case (Inl e)
    note both = doWork_read_cases [OF c dw, unfolded Inl sum.case]
    with g c Inl n0 xs show ?thesis by simp
  next
    case (Inr u)
    note both = doWork_read_cases [OF c dw, unfolded Inr sum.case]
    from both have t: "trace w' = trace w0 @ [ApiGet True]" by (rule conjunct1)
    with xs have "new_actions w w' = xs @ [ApiGet True]" by (simp add: new_actions_append)
    with xs have n1: "reads (new_actions w w') = 1" by (simp add: reads_append)
    from both have "case snd (api_get env (trace w')) of
              Inl e \<Rightarrow> r = Inl e \<and> statuses s' = statuses s \<and>
                       lastStatusUpdate s' = lastStatusUpdate s
            | Inr st \<Rightarrow> r = Inr (Some st) \<and> statuses s' = Some st \<and>
                        lastStatusUpdate s' = Some (getTime env (ticks w))"
      by (auto split: sum.splits)
    with t n1 g c Inr show ?thesis by simp
  qed
next
  show "getStatuses env True (s\<lparr>statuses := c, lastStatusUpdate := t\<rparr>) w =
       (case getStatuses env True s w of
          (Inl e, s', w') \<Rightarrow> (Inl e, s'\<lparr>statuses := c, lastStatusUpdate := t\<rparr>, w')
        | (Inr x, s', w') \<Rightarrow> (Inr x, s', w'))"
    by (rule getStatuses_force_cache)
next
  assume "ready s"
  then have c: "ensureConnected env s w = (Inr (), s, w)" by (rule ensureConnected_ready)
  obtain r s' w' where g: "getStatuses env True s w = (r, s', w')"
    by (cases "getStatuses env True s w") auto
  then have dw: "doWork env (readStatuses env) s w = (r, s', w')"
    by (simp add: getStatuses_def)
  note both = doWork_read_cases [OF c dw, unfolded sum.case]
  from both have t: "trace w' = trace w @ [ApiGet True]" by (rule conjunct1)
  then have "new_actions w w' = [ApiGet True]" by (rule new_actions_append)
  with t g show "trace (snd (snd (getStatuses env True s w))) = trace w @ [ApiGet True]"
    "reads (new_actions w (snd (snd (getStatuses env True s w)))) = 1" by simp_all
qed

text \<open>
  On the examples: with a snapshot of the cleaning robot cached 10 seconds ago, a forced
  query still reads, and returns the docked snapshot the transport now reports; with the
  device unreachable the connection step throws and nothing is read.
\<close>

theorem getStatuses_force_reads_witness:
  "fst (ensureConnected (env_up docked) (vac_fresh\<lparr>statuses := Some cleaning\<rparr>) world0) = Inr () \<and>
   fst (getStatuses (env_up docked) True (vac_fresh\<lparr>statuses := Some cleaning\<rparr>) world0)
     = Inr (Some docked) \<and>
   trace (snd (snd (getStatuses (env_up docked) True (vac_fresh\<lparr>statuses := Some cleaning\<rparr>)
     world0))) = [ApiGet True] \<and>
   statuses (fst (snd (getStatuses (env_up docked) True (vac_fresh\<lparr>statuses := Some cleaning\<rparr>)
     world0))) = Some docked \<and>
   ready (vac_fresh\<lparr>statuses := Some cleaning\<rparr>) \<and>
   fst (getStatuses env_down True vac0 world0) = Inl (TransportError ''connection timed out'') \<and>
   trace (snd (snd (getStatuses env_down True vac0 world0))) = [ApiConnect]"
  using getStatuses_force_reads [where env = "env_up docked"
      and s = "vac_fresh\<lparr>statuses := Some cleaning\<rparr>" and w = world0
      and c = "Some docked" and t = "Some 1699999990000"]
    getStatuses_force_reads [where env = env_down and s = vac0 and w = world0
      and c = None and t = None]
  by (simp add: session_defs example_defs)

section \<open>Commands\<close>

lemma doWork_set_keeps_cache: "keeps_cache s (doWork env (set_dps env data) s w)"
proof -
  obtain r0 s0 w0 where c: "ensureConnected env s w = (r0, s0, w0)"
    by (cases "ensureConnected env s w") auto
  obtain r s' w' where d: "doWork env (set_dps env data) s w = (r, s', w')"
    by (cases "doWork env (set_dps env data) s w") auto
  from doWork_set_cases [OF c d] d show ?thesis by (simp add: keeps_cache_def)
qed

text \<open>
  C9. \<^verbatim>\<open>play()\<close> and \<^verbatim>\<open>pause()\<close> are the same operation, \<^verbatim>\<open>setPlayPause(true)\<close>: from every
  session state and against every transport they return the same result and leave the same
  state and trace. Each issues one write, the mapping of the play/pause code to true, once
  the connection step has gone through (as it does on every session that is connected and
  knows its device), and none when that step throws; \<^verbatim>\<open>pause()\<close> never writes false to the
  play/pause data point.
\<close>

theorem play_pause_equal:
  "play env s w = pause env s w \<and>
   pause env s w = setPlayPause env True s w \<and>
   writes (new_actions w (snd (snd (play env s w)))) =
     (case fst (ensureConnected env s w) of
        Inl e \<Rightarrow> [] | Inr u \<Rightarrow> [[PLAY_PAUSE \<mapsto> VBool True]]) \<and>
   writes (new_actions w (snd (snd (pause env s w)))) =
     (case fst (ensureConnected env s w) of
        Inl e \<Rightarrow> [] | Inr u \<Rightarrow> [[PLAY_PAUSE \<mapsto> VBool True]]) \<and>
   [PLAY_PAUSE \<mapsto> VBool False] \<notin> set (writes (new_actions w (snd (snd (pause env s w))))) \<and>
   (ready s \<longrightarrow>
      writes (new_actions w (snd (snd (play env s w)))) = [[PLAY_PAUSE \<mapsto> VBool True]] \<and>
      writes (new_actions w (snd (snd (pause env s w)))) = [[PLAY_PAUSE \<mapsto> VBool True]])"
proof -
  have ne: "[PLAY_PAUSE \<mapsto> VBool True] \<noteq> [PLAY_PAUSE \<mapsto> VBool False]"
  proof
    assume "[PLAY_PAUSE \<mapsto> VBool True] = [PLAY_PAUSE \<mapsto> VBool False]"
    then have "VBool True = VBool False" by (rule map_upd_eqD1)
    then show False by simp
  qed
  have wr: "writes (new_actions w (snd (snd (setPlayPause env True s w)))) =
     (case fst (ensureConnected env s w) of
        Inl e \<Rightarrow> [] | Inr u \<Rightarrow> [[PLAY_PAUSE \<mapsto> VBool True]])"
    unfolding setPlayPause_def by (rule doWork_set_writes)
  have "[PLAY_PAUSE \<mapsto> VBool False]
          \<notin> set (writes (new_actions w (snd (snd (setPlayPause env True s w)))))"
  proof (cases "fst (ensureConnected env s w)")
    case (Inl e)
    with wr show ?thesis by simp
  next
    case (Inr u)
    with wr have "writes (new_actions w (snd (snd (setPlayPause env True s w)))) =
        [[PLAY_PAUSE \<mapsto> VBool True]]" by simp
    with ne show ?thesis by (metis empty_iff empty_set set_ConsD)
  qed
  moreover have "writes (new_actions w (snd (snd (setPlayPause env True s w)))) =
      [[PLAY_PAUSE \<mapsto> VBool True]]" if "ready s"
    using wr ensureConnected_ready [OF that, of env w] by simp
  ultimately show ?thesis using wr by (simp add: play_def pause_def)
qed

theorem play_pause_equal_witness:
  "fst (ensureConnected (env_up cleaning) vac0 world0) = Inr () \<and>
   writes (new_actions world0 (snd (snd (pause (env_up cleaning) vac0 world0)))) =
     [[PLAY_PAUSE \<mapsto> VBool True]] \<and>
   writes (new_actions world0 (snd (snd (play (env_up cleaning) vac0 world0)))) =
     [[PLAY_PAUSE \<mapsto> VBool True]] \<and>
   trace (snd (snd (pause (env_up cleaning) vac0 world0))) =
     [ApiConnect, ApiSet True [PLAY_PAUSE \<mapsto> VBool True]] \<and>
   writes (new_actions world0 (snd (snd (pause env_down vac0 world0)))) = [] \<and>
   ready vac_fresh \<and>
   trace (snd (snd (pause env_down vac_fresh world0))) =
     [ApiSet True [PLAY_PAUSE \<mapsto> VBool True]]"
  using play_pause_equal [of "env_up cleaning" vac0 world0]
    play_pause_equal [of env_down vac0 world0]
    play_pause_equal [of env_down vac_fresh world0]
  by (simp add: session_defs example_defs)

text \<open>
  C3. \<^verbatim>\<open>goHome()\<close> begins with the forced work-status query, which writes nothing and, when
  it returns a status, has read it from the device. If the query throws, so does
  \<^verbatim>\<open>goHome()\<close>, without writing. If the status is \<^verbatim>\<open>completed\<close> or \<^verbatim>\<open>Charging\<close>, \<^verbatim>\<open>goHome()\<close>
  returns at once: no action follows the query and no write is issued. For every other
  status it runs the write of the go-home code: exactly one write, the mapping of the
  go-home code to true, once the connection step has gone through (as it does when the
  query left the session connected and knowing its device), and none when that step throws.
\<close>

theorem goHome_rule:
  "(case getWorkStatus env True s w of
      (Inl e, s1, w1) \<Rightarrow> goHome env s w = (Inl e, s1, w1) \<and> writes (new_actions w w1) = []
    | (Inr workStatus, s1, w1) \<Rightarrow>
        reads (new_actions w w1) = 1 \<and> writes (new_actions w w1) = [] \<and>
        (if workStatus = WorkStatus_COMPLETED \<or> workStatus = WorkStatus_CHARGING
         then fst (goHome env s w) = Inr () \<and> fst (snd (goHome env s w)) = s1 \<and>
              trace (snd (snd (goHome env s w))) = trace w1 \<and>
              writes (new_actions w (snd (snd (goHome env s w)))) = []
         else goHome env s w = doWork env (set_dps env [GO_HOME \<mapsto> VBool True]) s1 w1 \<and>
              writes (new_actions w (snd (snd (goHome env s w)))) =
                (case fst (ensureConnected env s1 w1) of
                   Inl e \<Rightarrow> [] | Inr u \<Rightarrow> [[GO_HOME \<mapsto> VBool True]]) \<and>
              (ready s1 \<longrightarrow>
                 writes (new_actions w (snd (snd (goHome env s w)))) =
                   [[GO_HOME \<mapsto> VBool True]])))"
proof -
  obtain r1 s1 w1 where q: "getWorkStatus env True s w = (r1, s1, w1)"
    by (cases "getWorkStatus env True s w") auto
  obtain x where g: "getStatuses env True s w = (x, s1, w1)"
    using q project_snd [of dp_15 "getStatuses env True s w"]
    by (cases "getStatuses env True s w") (auto simp: getWorkStatus_def)
  from getStatuses_trace [OF g] obtain xs where
    xs: "trace w1 = trace w @ xs" "writes xs = []" by blast
  then have n1: "writes (new_actions w w1) = []" by (simp add: new_actions_append)
  show ?thesis
  proof (cases r1)
    case (Inl e)
    with q n1 show ?thesis by (simp add: goHome_def)
  next
    case (Inr workStatus)
    with q g have "project dp_15 (x, s1, w1) = (Inr workStatus, s1, w1)"
      by (simp add: getWorkStatus_def)
    from project_Inr [OF this] obtain st where "x = Inr (Some st)" by blast
    with g getStatuses_forced_value have r1: "reads (new_actions w w1) = 1" by blast
    show ?thesis
    proof (cases "workStatus = WorkStatus_COMPLETED \<or> workStatus = WorkStatus_CHARGING")
      case True
      with q Inr have gh: "goHome env s w =
          (Inr (), s1, log_msg Debug ''RoboVac is already Home, workStatus = '' w1)"
        by (simp add: goHome_def)
      with q Inr True r1 n1 show ?thesis by (simp add: trace_log_msg new_actions_log_msg)
    next
      case False
      with q Inr have gh: "goHome env s w =
          doWork env (set_dps env [GO_HOME \<mapsto> VBool True]) s1 w1"
        by (simp add: goHome_def)
      obtain r2 s2 w2 where d:
        "doWork env (set_dps env [GO_HOME \<mapsto> VBool True]) s1 w1 = (r2, s2, w2)"
        by (cases "doWork env (set_dps env [GO_HOME \<mapsto> VBool True]) s1 w1") auto
      from doWork_set_trace [OF d] obtain ys where
        ys: "trace w2 = trace w1 @ ys"
            "writes ys = (case fst (ensureConnected env s1 w1) of
                   Inl e \<Rightarrow> [] | Inr u \<Rightarrow> [[GO_HOME \<mapsto> VBool True]])" by blast
      with xs have "new_actions w w2 = xs @ ys" by (simp add: new_actions_append)
      with xs ys have wr: "writes (new_actions w w2) =
          (case fst (ensureConnected env s1 w1) of
                   Inl e \<Rightarrow> [] | Inr u \<Rightarrow> [[GO_HOME \<mapsto> VBool True]])"
        by (simp add: writes_append)
      have "writes (new_actions w w2) = [[GO_HOME \<mapsto> VBool True]]" if "ready s1"
        using wr ensureConnected_ready [OF that, of env w1] by simp
      with wr gh d q Inr False r1 n1 show ?thesis by simp
    qed
  qed
qed

text \<open>
  On the examples: a robot that reports \<^verbatim>\<open>Charging\<close> gets no go-home command, only the
  query's read; a robot that reports \<^verbatim>\<open>Running\<close> gets exactly one.
\<close>

theorem goHome_rule_witness:
  "fst (getWorkStatus (env_up docked) True vac0 world0) = Inr ''Charging'' \<and>
   trace (snd (snd (goHome (env_up docked) vac0 world0))) = [ApiConnect, ApiGet True] \<and>
   writes (new_actions world0 (snd (snd (goHome (env_up docked) vac0 world0)))) = [] \<and>
   fst (getWorkStatus (env_up cleaning) True vac0 world0) = Inr ''Running'' \<and>
   trace (snd (snd (goHome (env_up cleaning) vac0 world0))) =
     [ApiConnect, ApiGet True, ApiSet True [GO_HOME \<mapsto> VBool True]] \<and>
   writes (new_actions world0 (snd (snd (goHome (env_up cleaning) vac0 world0)))) =
     [[GO_HOME \<mapsto> VBool True]]"
  using goHome_rule [of "env_up docked" vac0 world0] goHome_rule [of "env_up cleaning" vac0 world0]
  by (simp add: session_defs example_defs WorkStatus_COMPLETED_def WorkStatus_CHARGING_def)

section \<open>Who writes the cache\<close>

lemma connect_keeps_cache: "keeps_cache s (connect env s w)"
proof -
  obtain r s' w' where c: "connect env s w = (r, s', w')" by (cases "connect env s w") auto
  from connect_frame [OF c] c show ?thesis by (simp add: keeps_cache_def)
qed

lemma disconnect_keeps_cache: "keeps_cache s (disconnect env s w)"
  by (simp add: keeps_cache_def disconnect_def Let_def deliver_fst_cache
      split: prod.splits option.splits)

lemma set_dps_keeps_cache: "keeps_cache s (set_dps env data s w)"
proof -
  obtain r s' w' where c: "set_dps env data s w = (r, s', w')"
    by (cases "set_dps env data s w") auto
  from set_dps_frame [OF c] c show ?thesis by (simp add: keeps_cache_def)
qed

lemma log_then_set_keeps_cache: "keeps_cache s (set_dps env data s (log_msg l m w))"
  by (rule set_dps_keeps_cache)

lemma doWork_keeps_cache:
  assumes "\<And>s1 w1. keeps_cache s1 (work s1 w1)"
  shows "keeps_cache s (doWork env work s w)"
proof -
  obtain r0 s0 w0 where c: "ensureConnected env s w = (r0, s0, w0)"
    by (cases "ensureConnected env s w") auto
  from ensureConnected_frame [OF c] have
    same: "statuses s0 = statuses s" "lastStatusUpdate s0 = lastStatusUpdate s" by simp_all
  show ?thesis
  proof (cases r0)
    case (Inl e)
    with c same show ?thesis by (simp add: doWork_ensureConnected keeps_cache_def)
  next
    case (Inr u)
    with c have "doWork env work s w = work s0 w0" by (simp add: doWork_ensureConnected)
    with assms [of s0 w0] same show ?thesis by (simp add: keeps_cache_def)
  qed
qed

lemma setWorkMode_keeps_cache: "keeps_cache s (setWorkMode env m s w)"
  unfolding setWorkMode_def by (rule doWork_keeps_cache) (rule log_then_set_keeps_cache)

lemma getStatuses_changes_cache:
  assumes g: "getStatuses env force s w = (r, s', w')"
    and ch: "\<not> keeps_cache s (r, s', w')"
  shows "\<exists>st. reads (new_actions w w') = 1 \<and> snd (api_get env (trace w')) = Inr st \<and>
           r = Inr (Some st) \<and> statuses s' = Some st \<and>
           lastStatusUpdate s' = Some (getTime env (ticks w' - 1))"
proof -
  from ch have ne: "statuses s' \<noteq> statuses s \<or> lastStatusUpdate s' \<noteq> lastStatusUpdate s"
    by (simp add: keeps_cache_def)
  from getStatuses_cases [OF g] consider
      "s' = s"
    | "statuses s' = statuses s" "lastStatusUpdate s' = lastStatusUpdate s"
    | xs where "trace w' = trace w @ xs @ [ApiGet True]" "reads xs = 0"
        "case snd (api_get env (trace w')) of
               Inl e \<Rightarrow> r = Inl e \<and> statuses s' = statuses s \<and>
                        lastStatusUpdate s' = lastStatusUpdate s
             | Inr st \<Rightarrow> r = Inr (Some st) \<and> statuses s' = Some st \<and>
                         lastStatusUpdate s' = Some (getTime env (ticks w' - 1))"
    by blast
  then show ?thesis
  proof cases
    case 1
    with ne show ?thesis by simp
  next
    case 2
    with ne show ?thesis by simp
  next
    case 3
    then have "new_actions w w' = xs @ [ApiGet True]" by (simp add: new_actions_append)
    with 3 have n: "reads (new_actions w w') = 1" by (simp add: reads_append)
    show ?thesis
    proof (cases "snd (api_get env (trace w'))")
      case (Inl e)
      from 3(3) [unfolded Inl sum.case] ne show ?thesis by simp
    next
      case (Inr st)
      from 3(3) [unfolded Inr sum.case] n Inr show ?thesis by simp
    qed
  qed
qed

lemma goHome_cache:
  "statuses (fst (snd (goHome env s w))) = statuses (fst (snd (getStatuses env True s w))) \<and>
   lastStatusUpdate (fst (snd (goHome env s w))) =
     lastStatusUpdate (fst (snd (getStatuses env True s w)))"
proof -
  obtain r1 s1 w1 where q: "getWorkStatus env True s w = (r1, s1, w1)"
    by (cases "getWorkStatus env True s w") auto
  have "snd (getWorkStatus env True s w) = snd (getStatuses env True s w)"
    by (simp add: getWorkStatus_def project_snd)
  with q have "snd (getStatuses env True s w) = (s1, w1)" by simp
  then have s1: "fst (snd (getStatuses env True s w)) = s1" by simp
  show ?thesis
  proof (cases r1)
    case (Inl e)
    with q s1 show ?thesis by (simp add: goHome_def)
  next
    case (Inr ws)
    show ?thesis
    proof (cases "ws = WorkStatus_COMPLETED \<or> ws = WorkStatus_CHARGING")
      case True
      with q Inr s1 show ?thesis by (simp add: goHome_def)
    next
      case False
      with q Inr have "goHome env s w = doWork env (set_dps env [GO_HOME \<mapsto> VBool True]) s1 w1"
        by (simp add: goHome_def)
      with doWork_set_keeps_cache [of s1 env "[GO_HOME \<mapsto> VBool True]" w1] s1
      show ?thesis by (simp add: keeps_cache_def)
    qed
  qed
qed

lemma startCleaning_cache:
  "statuses (fst (snd (startCleaning env force s w))) =
     statuses (fst (snd (getStatuses env force s w))) \<and>
   lastStatusUpdate (fst (snd (startCleaning env force s w))) =
     lastStatusUpdate (fst (snd (getStatuses env force s w)))"
proof -
  obtain x s1 w1 where g: "getStatuses env force s w = (x, s1, w1)"
    by (cases "getStatuses env force s w") auto
  show ?thesis
  proof (cases x)
    case (Inl e)
    with g show ?thesis by (simp add: startCleaning_def)
  next
    case (Inr st)
    let ?w = "log_msg Debug ''Starting Cleaning'' w1"
    obtain r2 s2 w2 where m: "setWorkMode env WorkMode_AUTO s1 ?w = (r2, s2, w2)"
      by (cases "setWorkMode env WorkMode_AUTO s1 ?w") auto
    from setWorkMode_keeps_cache [of s1 env WorkMode_AUTO ?w] m have
      same: "statuses s2 = statuses s1" "lastStatusUpdate s2 = lastStatusUpdate s1"
      by (simp_all add: keeps_cache_def)
    from g Inr m have "fst (snd (startCleaning env force s w)) = s2"
      by (cases r2) (simp_all add: startCleaning_def)
    with same g show ?thesis by simp
  qed
qed

lemma ensureConnected_keeps_cache: "keeps_cache s (ensureConnected env s w)"
proof -
  obtain r s' w' where c: "ensureConnected env s w = (r, s', w')"
    by (cases "ensureConnected env s w") auto
  from ensureConnected_frame [OF c] c show ?thesis by (simp add: keeps_cache_def)
qed

lemma formatStatus_keeps_cache: "keeps_cache s (formatStatus s w)"
  by (simp add: keeps_cache_def formatStatus_def split: option.splits)

text \<open>
  C10. The handlers of the transport's \<^verbatim>\<open>data\<close> and \<^verbatim>\<open>dp-refresh\<close> events leave the whole
  session as it was, the cached snapshot and its timestamp included; they add log lines and
  nothing else. No sequence of transport events changes the cache, and neither do
  \<^verbatim>\<open>connect\<close>, \<^verbatim>\<open>disconnect\<close>, \<^verbatim>\<open>set\<close> and the commands built on it. A status query changes
  the cache only when it issued a read that the transport answered with a snapshot, which
  is then the new cache; and \<^verbatim>\<open>goHome()\<close> leaves the cache as its forced query left it.
  The seven accessors leave the session and the world exactly as their status query does,
  \<^verbatim>\<open>startCleaning\<close> leaves the cache as its status query left it, and the connection step of
  \<^verbatim>\<open>doWork\<close> and \<^verbatim>\<open>formatStatus\<close> do not touch it. These are all the methods of the session.
\<close>

theorem cache_written_only_by_read:
  "fst (on_event (OnData d) s w) = s \<and> fst (on_event (OnDpRefresh m) s w) = s \<and>
   trace (snd (on_event (OnData d) s w)) = trace w \<and>
   trace (snd (on_event (OnDpRefresh m) s w)) = trace w \<and>
   ticks (snd (on_event (OnData d) s w)) = ticks w \<and>
   ticks (snd (on_event (OnDpRefresh m) s w)) = ticks w \<and>
   statuses (fst (deliver evs s w)) = statuses s \<and>
   lastStatusUpdate (fst (deliver evs s w)) = lastStatusUpdate s \<and>
   keeps_cache s (connect env s w) \<and> keeps_cache s (disconnect env s w) \<and>
   keeps_cache s (set_dps env data s w) \<and> keeps_cache s (setCleanSpeed env speed s w) \<and>
   keeps_cache s (setPlayPause env b s w) \<and> keeps_cache s (play env s w) \<and>
   keeps_cache s (pause env s w) \<and> keeps_cache s (setWorkMode env mode s w) \<and>
   keeps_cache s (setWorkStatus env ws s w) \<and> keeps_cache s (setFindRobot env b s w) \<and>
   (getStatuses env force s w = (r, s', w') \<and> \<not> keeps_cache s (r, s', w') \<longrightarrow>
      (\<exists>st. reads (new_actions w w') = 1 \<and> snd (api_get env (trace w')) = Inr st \<and>
            r = Inr (Some st) \<and> statuses s' = Some st \<and>
            lastStatusUpdate s' = Some (getTime env (ticks w' - 1)))) \<and>
   statuses (fst (snd (goHome env s w))) = statuses (fst (snd (getStatuses env True s w))) \<and>
   lastStatusUpdate (fst (snd (goHome env s w))) =
     lastStatusUpdate (fst (snd (getStatuses env True s w))) \<and>
   snd (getCleanSpeed env force s w) = snd (getStatuses env force s w) \<and>
   snd (getPlayPause env force s w) = snd (getStatuses env force s w) \<and>
   snd (getWorkMode env force s w) = snd (getStatuses env force s w) \<and>
   snd (getWorkStatus env force s w) = snd (getStatuses env force s w) \<and>
   snd (getFindRobot env force s w) = snd (getStatuses env force s w) \<and>
   snd (getBatteyLevel env force s w) = snd (getStatuses env force s w) \<and>
   snd (getErrorCode env force s w) = snd (getStatuses env force s w) \<and>
   statuses (fst (snd (startCleaning env force s w))) =
     statuses (fst (snd (getStatuses env force s w))) \<and>
   lastStatusUpdate (fst (snd (startCleaning env force s w))) =
     lastStatusUpdate (fst (snd (getStatuses env force s w))) \<and>
   keeps_cache s (ensureConnected env s w) \<and> keeps_cache s (formatStatus s w)"
proof -
  have h: "fst (on_event (OnData d) s w) = s \<and> fst (on_event (OnDpRefresh m) s w) = s \<and>
   trace (snd (on_event (OnData d) s w)) = trace w \<and>
   trace (snd (on_event (OnDpRefresh m) s w)) = trace w \<and>
   ticks (snd (on_event (OnData d) s w)) = ticks w \<and>
   ticks (snd (on_event (OnDpRefresh m) s w)) = ticks w"
    by (simp add: log_msg_def)
  note dv = deliver_fst_cache [of evs s w]
  have ops: "keeps_cache s (connect env s w) \<and> keeps_cache s (disconnect env s w) \<and>
   keeps_cache s (set_dps env data s w) \<and> keeps_cache s (setCleanSpeed env speed s w) \<and>
   keeps_cache s (setPlayPause env b s w) \<and> keeps_cache s (play env s w) \<and>
   keeps_cache s (pause env s w) \<and> keeps_cache s (setWorkMode env mode s w) \<and>
   keeps_cache s (setWorkStatus env ws s w) \<and> keeps_cache s (setFindRobot env b s w)"
    by (simp add: connect_keeps_cache disconnect_keeps_cache set_dps_keeps_cache
        setCleanSpeed_def setPlayPause_def play_def pause_def setWorkStatus_def
        setFindRobot_def doWork_set_keeps_cache setWorkMode_keeps_cache)
  have q: "getStatuses env force s w = (r, s', w') \<and> \<not> keeps_cache s (r, s', w') \<longrightarrow>
      (\<exists>st. reads (new_actions w w') = 1 \<and> snd (api_get env (trace w')) = Inr st \<and>
            r = Inr (Some st) \<and> statuses s' = Some st \<and>
            lastStatusUpdate s' = Some (getTime env (ticks w' - 1)))"
    using getStatuses_changes_cache by blast
  have acc: "snd (getCleanSpeed env force s w) = snd (getStatuses env force s w) \<and>
   snd (getPlayPause env force s w) = snd (getStatuses env force s w) \<and>
   snd (getWorkMode env force s w) = snd (getStatuses env force s w) \<and>
   snd (getWorkStatus env force s w) = snd (getStatuses env force s w) \<and>
   snd (getFindRobot env force s w) = snd (getStatuses env force s w) \<and>
   snd (getBatteyLevel env force s w) = snd (getStatuses env force s w) \<and>
   snd (getErrorCode env force s w) = snd (getStatuses env force s w)"
    by (simp add: getCleanSpeed_def getPlayPause_def getWorkMode_def getWorkStatus_def
        getFindRobot_def getBatteyLevel_def getErrorCode_def project_snd)
  have rest: "keeps_cache s (ensureConnected env s w) \<and> keeps_cache s (formatStatus s w)"
    by (simp add: ensureConnected_keeps_cache formatStatus_keeps_cache)
  from h dv ops q goHome_cache [of env s w] acc startCleaning_cache [of env force s w] rest
  show ?thesis by blast
qed

text \<open>
  On the examples: a \<^verbatim>\<open>data\<close> event carrying the snapshot of the cleaning robot leaves the
  cached docked snapshot in place, and the query that does change the cache is one whose
  read was answered.
\<close>

theorem cache_written_only_by_read_witness:
  "statuses (fst (on_event (OnData cleaning) vac_fresh world0)) = Some docked \<and>
   lastStatusUpdate (fst (on_event (OnData cleaning) vac_fresh world0)) = Some 1699999990000 \<and>
   statuses (fst (deliver [OnData cleaning, OnDisconnected, OnDpRefresh [BATTERY_LEVEL \<mapsto> VNum 12]]
     vac_fresh world0)) = Some docked \<and>
   \<not> keeps_cache vac0 (getStatuses (env_up docked) False vac0 world0) \<and>
   reads (new_actions world0 (snd (snd (getStatuses (env_up docked) False vac0 world0)))) = 1 \<and>
   statuses (fst (snd (getStatuses (env_up docked) False vac0 world0))) = Some docked \<and>
   statuses (fst (snd (getBatteyLevel (env_up docked) False vac0 world0))) = Some docked \<and>
   statuses (fst (snd (getBatteyLevel env_down False vac_fresh world0))) = Some docked"
  using cache_written_only_by_read [of cleaning vac_fresh world0 "[BATTERY_LEVEL \<mapsto> VNum 12]"
      "[OnData cleaning, OnDisconnected, OnDpRefresh [BATTERY_LEVEL \<mapsto> VNum 12]]"]
    cache_written_only_by_read [of docked vac0 world0 Map.empty "[]" "env_up docked"
      Map.empty "''Standard''" True "''auto''" "''Running''" False
      "fst (getStatuses (env_up docked) False vac0 world0)"
      "fst (snd (getStatuses (env_up docked) False vac0 world0))"
      "snd (snd (getStatuses (env_up docked) False vac0 world0))"]
  by (simp add: session_defs example_defs keeps_cache_def)

section \<open>The accessory's handlers\<close>

lemmas adapter_defs =
  with_vac_def invoke_def sleep_def setup_acc_def setCleanState_def getBatteryLevel_def
  getChargingState_def getStatusLowBattery_def getFindRobot_acc_def getErrorStatus_def

lemma accessor_trace:
  assumes "project f (getStatuses env force s w) = (r, s', w')"
  shows "\<exists>xs. trace w' = trace w @ xs \<and> quiet xs \<and> writes xs = []"
proof -
  obtain x where g: "getStatuses env force s w = (x, s', w')"
    using assms project_snd [of f "getStatuses env force s w"]
    by (cases "getStatuses env force s w") auto
  from getStatuses_trace [OF g] show ?thesis by blast
qed

lemma setPlayPause_trace:
  assumes "setPlayPause env b s w = (r, s', w')"
  shows "\<exists>xs. trace w' = trace w @ xs \<and> quiet xs \<and> reads xs = 0 \<and>
           writes xs = (case fst (ensureConnected env s w) of
                          Inl e \<Rightarrow> [] | Inr u \<Rightarrow> [[PLAY_PAUSE \<mapsto> VBool b]])"
  using doWork_set_trace [OF assms [unfolded setPlayPause_def]] by blast

lemma goHome_trace:
  assumes gh: "goHome env s w = (r, s', w')"
  shows "\<exists>xs. trace w' = trace w @ xs \<and> quiet xs"
proof -
  obtain r1 s1 w1 where q: "getWorkStatus env True s w = (r1, s1, w1)"
    by (cases "getWorkStatus env True s w") auto
  from accessor_trace [OF q [unfolded getWorkStatus_def]] obtain xs where
    xs: "trace w1 = trace w @ xs" "quiet xs" by blast
  show ?thesis
  proof (cases r1)
    case (Inl e)
    with q gh xs show ?thesis by (simp add: goHome_def)
  next
    case (Inr ws)
    show ?thesis
    proof (cases "ws = WorkStatus_COMPLETED \<or> ws = WorkStatus_CHARGING")
      case True
      with q Inr gh have "w' = log_msg Debug ''RoboVac is already Home, workStatus = '' w1"
        by (simp add: goHome_def)
      with xs show ?thesis by (simp add: trace_log_msg)
    next
      case False
      with q Inr gh have "doWork env (set_dps env [GO_HOME \<mapsto> VBool True]) s1 w1 = (r, s', w')"
        by (simp add: goHome_def)
      from doWork_set_trace [OF this] obtain ys where "trace w' = trace w1 @ ys" "quiet ys"
        by blast
      with xs have "trace w' = trace w @ (xs @ ys)" "quiet (xs @ ys)"
        by (simp_all add: quiet_append)
      then show ?thesis by blast
    qed
  qed
qed

lemma sleep_trace:
  assumes "sleep env ms a w = (a2, w2)"
  shows "trace w2 = trace w @ [Sleep ms]"
  using assms
  by (auto simp: sleep_def Let_def act_def split: option.splits prod.splits dest!: deliver_frame)

lemma with_vac_Some:
  "roboVac a = Some v \<Longrightarrow>
   with_vac a w f = (case f v w of (r, v', w') \<Rightarrow> (r, a\<lparr>roboVac := Some v'\<rparr>, w'))"
  by (simp add: with_vac_def)

lemma with_vac_trace:
  assumes f: "\<And>v r v' w'. f v w = (r, v', w') \<Longrightarrow> \<exists>xs. trace w' = trace w @ xs \<and> quiet xs"
    and c: "with_vac a w f = (r, a', w')"
  shows "\<exists>xs. trace w' = trace w @ xs \<and> quiet xs"
proof (cases "roboVac a")
  case None
  with c have "w' = w" by (simp add: with_vac_def)
  then show ?thesis by (simp add: quiet_Nil)
next
  case (Some v)
  obtain r1 v1 w1 where fv: "f v w = (r1, v1, w1)" by (cases "f v w") auto
  with c Some have "w' = w1" by (simp add: with_vac_def)
  with f [OF fv] show ?thesis by simp
qed

text \<open>
  C7. Whenever the session reports a battery level \<open>n\<close>, the low-battery GET completes
  exactly once, with \<^verbatim>\<open>BATTERY_LEVEL_LOW\<close> when \<open>n < 30\<close> and with \<^verbatim>\<open>BATTERY_LEVEL_NORMAL\<close>
  when \<open>n \<ge> 30\<close>, 30 itself included.
\<close>

theorem low_battery_threshold:
  "(roboVac a = Some v \<and> getBatteyLevel env False v w = (Inr n, v', w') \<and> n < 30 \<longrightarrow>
      getStatusLowBattery env Caller a w =
        (Inr (), a\<lparr>roboVac := Some v'\<rparr>,
         act (Completed None (Some StatusLowBattery_BATTERY_LEVEL_LOW)) w') \<and>
      adapter_actions (new_actions w (snd (snd (getStatusLowBattery env Caller a w)))) =
        [Completed None (Some StatusLowBattery_BATTERY_LEVEL_LOW)])
   \<and> (roboVac a = Some v \<and> getBatteyLevel env False v w = (Inr n, v', w') \<and> 30 \<le> n \<longrightarrow>
      getStatusLowBattery env Caller a w =
        (Inr (), a\<lparr>roboVac := Some v'\<rparr>,
         act (Completed None (Some StatusLowBattery_BATTERY_LEVEL_NORMAL)) w') \<and>
      adapter_actions (new_actions w (snd (snd (getStatusLowBattery env Caller a w)))) =
        [Completed None (Some StatusLowBattery_BATTERY_LEVEL_NORMAL)])"
proof -
  have main: "getStatusLowBattery env Caller a w =
        (Inr (), a\<lparr>roboVac := Some v'\<rparr>,
         act (Completed None (Some (if n < 30 then StatusLowBattery_BATTERY_LEVEL_LOW
                                    else StatusLowBattery_BATTERY_LEVEL_NORMAL))) w') \<and>
      adapter_actions (new_actions w (snd (snd (getStatusLowBattery env Caller a w)))) =
        [Completed None (Some (if n < 30 then StatusLowBattery_BATTERY_LEVEL_LOW
                               else StatusLowBattery_BATTERY_LEVEL_NORMAL))]"
    if rv: "roboVac a = Some v" and b: "getBatteyLevel env False v w = (Inr n, v', w')"
  proof -
    from accessor_trace [OF b [unfolded getBatteyLevel_def]] obtain xs where
      xs: "trace w' = trace w @ xs" "quiet xs" by blast
    from rv b have eq: "getStatusLowBattery env Caller a w =
        (Inr (), a\<lparr>roboVac := Some v'\<rparr>,
         act (Completed None (Some (if n < 30 then StatusLowBattery_BATTERY_LEVEL_LOW
                                    else StatusLowBattery_BATTERY_LEVEL_NORMAL))) w')"
      by (simp add: getStatusLowBattery_def with_vac_def invoke_def)
    let ?c = "Completed None (Some (if n < 30 then StatusLowBattery_BATTERY_LEVEL_LOW
                                    else StatusLowBattery_BATTERY_LEVEL_NORMAL))"
    from xs have "trace (act ?c w') = trace w @ (xs @ [?c])" by (simp add: trace_act)
    then have "new_actions w (act ?c w') = xs @ [?c]" by (rule new_actions_append)
    with xs have "adapter_actions (new_actions w (act ?c w')) = [?c]"
      by (simp add: adapter_actions_append quiet_def)
    with eq show ?thesis by simp
  qed
  show ?thesis
  proof (intro conjI impI)
    assume a1: "roboVac a = Some v \<and> getBatteyLevel env False v w = (Inr n, v', w') \<and> n < 30"
    then have rv: "roboVac a = Some v" and b: "getBatteyLevel env False v w = (Inr n, v', w')"
      and lt: "n < 30" by simp_all
    from main [OF rv b, THEN conjunct1] lt show "getStatusLowBattery env Caller a w =
        (Inr (), a\<lparr>roboVac := Some v'\<rparr>,
         act (Completed None (Some StatusLowBattery_BATTERY_LEVEL_LOW)) w')" by simp
    from main [OF rv b, THEN conjunct2] lt show
      "adapter_actions (new_actions w (snd (snd (getStatusLowBattery env Caller a w)))) =
        [Completed None (Some StatusLowBattery_BATTERY_LEVEL_LOW)]" by simp
  next
    assume a2: "roboVac a = Some v \<and> getBatteyLevel env False v w = (Inr n, v', w') \<and> 30 \<le> n"
    then have rv: "roboVac a = Some v" and b: "getBatteyLevel env False v w = (Inr n, v', w')"
      and ge: "30 \<le> n" by simp_all
    from main [OF rv b, THEN conjunct1] ge show "getStatusLowBattery env Caller a w =
        (Inr (), a\<lparr>roboVac := Some v'\<rparr>,
         act (Completed None (Some StatusLowBattery_BATTERY_LEVEL_NORMAL)) w')" by simp
    from main [OF rv b, THEN conjunct2] ge show
      "adapter_actions (new_actions w (snd (snd (getStatusLowBattery env Caller a w)))) =
        [Completed None (Some StatusLowBattery_BATTERY_LEVEL_NORMAL)]" by simp
  qed
qed

text \<open>On the examples: 29 percent is low; 30 percent and 55 percent are normal.\<close>

theorem low_battery_threshold_witness:
  "fst (getBatteyLevel (env_up cleaning) False vac0 world0) = Inr 29 \<and>
   trace (snd (snd (getStatusLowBattery (env_up cleaning) Caller acc0 world0))) =
     [ApiConnect, ApiGet True, Completed None (Some StatusLowBattery_BATTERY_LEVEL_LOW)] \<and>
   fst (getBatteyLevel (env_up (docked\<lparr>dps := (dps docked)\<lparr>dp_104 := 30\<rparr>\<rparr>)) False vac0 world0)
     = Inr 30 \<and>
   trace (snd (snd (getStatusLowBattery (env_up (docked\<lparr>dps := (dps docked)\<lparr>dp_104 := 30\<rparr>\<rparr>))
     Caller acc0 world0))) =
     [ApiConnect, ApiGet True, Completed None (Some StatusLowBattery_BATTERY_LEVEL_NORMAL)] \<and>
   fst (getBatteyLevel (env_up docked) False vac0 world0) = Inr 55 \<and>
   adapter_actions (new_actions world0
     (snd (snd (getStatusLowBattery (env_up docked) Caller acc0 world0)))) =
     [Completed None (Some StatusLowBattery_BATTERY_LEVEL_NORMAL)]"
  using low_battery_threshold [of acc0 vac0 "env_up cleaning" world0 29
      "fst (snd (getBatteyLevel (env_up cleaning) False vac0 world0))"
      "snd (snd (getBatteyLevel (env_up cleaning) False vac0 world0))"]
    low_battery_threshold [of acc0 vac0 "env_up (docked\<lparr>dps := (dps docked)\<lparr>dp_104 := 30\<rparr>\<rparr>)"
      world0 30
      "fst (snd (getBatteyLevel (env_up (docked\<lparr>dps := (dps docked)\<lparr>dp_104 := 30\<rparr>\<rparr>)) False
         vac0 world0))"
      "snd (snd (getBatteyLevel (env_up (docked\<lparr>dps := (dps docked)\<lparr>dp_104 := 30\<rparr>\<rparr>)) False
         vac0 world0))"]
    low_battery_threshold [of acc0 vac0 "env_up docked" world0 55
      "fst (snd (getBatteyLevel (env_up docked) False vac0 world0))"
      "snd (snd (getBatteyLevel (env_up docked) False vac0 world0))"]
  by (simp add: session_defs example_defs adapter_defs)

text \<open>
  C8. A SET of the clean state to false that signals completion has done, in this order:
  \<^verbatim>\<open>setPlayPause(false)\<close>, which returned; the 2000 ms delay; \<^verbatim>\<open>goHome()\<close>, which returned;
  the callback, once and last. The delay is entered only after \<^verbatim>\<open>setPlayPause(false)\<close> has
  returned, and the callback only after \<^verbatim>\<open>goHome()\<close> has; when one of the two calls throws,
  what would follow it is skipped. A SET to true is \<^verbatim>\<open>setPlayPause(true)\<close> followed by the
  callback: no delay, no status read, no write of the go-home code.
\<close>

theorem setCleanState_order:
  "(roboVac a = Some v \<and> setCleanState env False Caller a w = (Inr (), a', w') \<longrightarrow>
      (\<exists>v1 w1 a2 w2 w3.
         setPlayPause env False v (log_msg Debug ''setCleanState for  set to '' w) =
           (Inr (), v1, w1) \<and>
         sleep env 2000 (a\<lparr>roboVac := Some v1\<rparr>) w1 = (a2, w2) \<and>
         with_vac a2 w2 (goHome env) = (Inr (), a', w3) \<and>
         trace w' = trace w @ new_actions w w1 @ [Sleep 2000] @ new_actions w2 w3 @
                      [Completed None None] \<and>
         quiet (new_actions w w1) \<and> quiet (new_actions w2 w3)))
   \<and> adapter_actions (new_actions w (snd (snd (setCleanState env False Caller a w)))) =
       (if fst (with_vac a (log_msg Debug ''setCleanState for  set to '' w)
                  (setPlayPause env False)) = Inr ()
        then Sleep 2000 #
               (if fst (setCleanState env False Caller a w) = Inr ()
                then [Completed None None] else [])
        else [])
   \<and> setCleanState env True cb a w =
       (case with_vac a (log_msg Debug ''setCleanState for  set to '' w) (setPlayPause env True) of
          (Inl e, a1, w1) \<Rightarrow> (Inl e, a1, w1)
        | (Inr u, a1, w1) \<Rightarrow> (Inr (), a1, invoke cb None None w1))
   \<and> adapter_actions (new_actions w (snd (snd (setCleanState env True Caller a w)))) =
       (if fst (setCleanState env True Caller a w) = Inr () then [Completed None None] else [])
   \<and> reads (new_actions w (snd (snd (setCleanState env True Caller a w)))) = 0
   \<and> [GO_HOME \<mapsto> VBool True]
        \<notin> set (writes (new_actions w (snd (snd (setCleanState env True Caller a w)))))"
proof -
  let ?wl = "log_msg Debug ''setCleanState for  set to '' w"
  have trl: "trace ?wl = trace w" by (rule trace_log_msg)
  \<comment> \<open>the first call, for either value of the state\<close>
  have first: "\<exists>xs. trace w1 = trace w @ xs \<and> quiet xs \<and> reads xs = 0 \<and>
       [GO_HOME \<mapsto> VBool True] \<notin> set (writes xs)"
    if c: "with_vac a ?wl (setPlayPause env b) = (r1, a1, w1)" for b r1 a1 w1
  proof (cases "roboVac a")
    case None
    with c have "w1 = ?wl" by (simp add: with_vac_def)
    with trl show ?thesis by (simp add: quiet_Nil)
  next
    case (Some v0)
    obtain r0 v1 w0 where pp: "setPlayPause env b v0 ?wl = (r0, v1, w0)"
      by (cases "setPlayPause env b v0 ?wl") auto
    with c Some have w: "w1 = w0" by (simp add: with_vac_def)
    from setPlayPause_trace [OF pp] obtain xs where
      xs: "trace w0 = trace ?wl @ xs" "quiet xs" "reads xs = 0"
          "writes xs = (case fst (ensureConnected env v0 ?wl) of
                          Inl e \<Rightarrow> [] | Inr u \<Rightarrow> [[PLAY_PAUSE \<mapsto> VBool b]])" by blast
    have ne: "[PLAY_PAUSE \<mapsto> VBool b] \<noteq> [GO_HOME \<mapsto> VBool True]"
    proof
      assume "[PLAY_PAUSE \<mapsto> VBool b] = [GO_HOME \<mapsto> VBool True]"
      then have "[PLAY_PAUSE \<mapsto> VBool b] GO_HOME = [GO_HOME \<mapsto> VBool True] GO_HOME" by simp
      then show False by (simp add: PLAY_PAUSE_def GO_HOME_def)
    qed
    have "[GO_HOME \<mapsto> VBool True] \<notin> set (writes xs)"
    proof (cases "fst (ensureConnected env v0 ?wl)")
      case (Inl e)
      with xs show ?thesis by simp
    next
      case (Inr u)
      with xs have "writes xs = [[PLAY_PAUSE \<mapsto> VBool b]]" by simp
      with ne show ?thesis by (metis empty_iff empty_set set_ConsD)
    qed
    with xs w trl show ?thesis by auto
  qed
  \<comment> \<open>a SET to false\<close>
  obtain r1 a1 w1 where c1: "with_vac a ?wl (setPlayPause env False) = (r1, a1, w1)"
    by (cases "with_vac a ?wl (setPlayPause env False)") auto
  from first [OF c1] obtain xs where
    xs: "trace w1 = trace w @ xs" "quiet xs" by blast
  obtain a2 w2 where sl: "sleep env 2000 a1 w1 = (a2, w2)" by (cases "sleep env 2000 a1 w1")
  obtain r3 a3 w3 where c3: "with_vac a2 w2 (goHome env) = (r3, a3, w3)"
    by (cases "with_vac a2 w2 (goHome env)") auto
  have "\<exists>ys. trace w3 = trace w2 @ ys \<and> quiet ys"
    by (rule with_vac_trace [OF _ c3]) (rule goHome_trace)
  then obtain ys where ys: "trace w3 = trace w2 @ ys" "quiet ys" by blast
  from sleep_trace [OF sl] have t2: "trace w2 = trace w1 @ [Sleep 2000]" .
  have n1: "new_actions w w1 = xs" using xs by (simp add: new_actions_append)
  have n3: "new_actions w2 w3 = ys" using ys by (simp add: new_actions_append)
  have res: "setCleanState env False Caller a w =
      (case r1 of
         Inl e \<Rightarrow> (Inl e, a1, w1)
       | Inr u \<Rightarrow> (case r3 of
                     Inl e \<Rightarrow> (Inl e, a3, w3)
                   | Inr u' \<Rightarrow> (Inr (), a3, act (Completed None None) w3)))"
    using c1 sl c3 by (simp add: setCleanState_def invoke_def split: sum.splits)
  have A: "roboVac a = Some v \<and> setCleanState env False Caller a w = (Inr (), a', w') \<longrightarrow>
      (\<exists>v1 w1 a2 w2 w3.
         setPlayPause env False v ?wl = (Inr (), v1, w1) \<and>
         sleep env 2000 (a\<lparr>roboVac := Some v1\<rparr>) w1 = (a2, w2) \<and>
         with_vac a2 w2 (goHome env) = (Inr (), a', w3) \<and>
         trace w' = trace w @ new_actions w w1 @ [Sleep 2000] @ new_actions w2 w3 @
                      [Completed None None] \<and>
         quiet (new_actions w w1) \<and> quiet (new_actions w2 w3))"
  proof
    assume h: "roboVac a = Some v \<and> setCleanState env False Caller a w = (Inr (), a', w')"
    then have rv: "roboVac a = Some v"
      and ok: "setCleanState env False Caller a w = (Inr (), a', w')" by simp_all
    from ok res have r1: "r1 = Inr ()" by (cases r1) simp_all
    with ok res have r3: "r3 = Inr ()" by (cases r3) simp_all
    from ok res r1 r3 have fin: "a' = a3" "w' = act (Completed None None) w3" by simp_all
    obtain r0 v1 w0 where pp: "setPlayPause env False v ?wl = (r0, v1, w0)"
      by (cases "setPlayPause env False v ?wl") auto
    with c1 rv r1 have e1: "r0 = Inr ()" "a1 = a\<lparr>roboVac := Some v1\<rparr>" "w1 = w0"
      by (simp_all add: with_vac_def)
    from fin xs ys t2 n1 n3 have tr: "trace w' = trace w @ new_actions w w1 @ [Sleep 2000] @
        new_actions w2 w3 @ [Completed None None]"
      by (simp add: trace_act)
    from pp e1 sl c3 r3 fin tr xs ys n1 n3 show "\<exists>v1 w1 a2 w2 w3.
         setPlayPause env False v ?wl = (Inr (), v1, w1) \<and>
         sleep env 2000 (a\<lparr>roboVac := Some v1\<rparr>) w1 = (a2, w2) \<and>
         with_vac a2 w2 (goHome env) = (Inr (), a', w3) \<and>
         trace w' = trace w @ new_actions w w1 @ [Sleep 2000] @ new_actions w2 w3 @
                      [Completed None None] \<and>
         quiet (new_actions w w1) \<and> quiet (new_actions w2 w3)"
      by blast
  qed
  have B: "adapter_actions (new_actions w (snd (snd (setCleanState env False Caller a w)))) =
       (if fst (with_vac a ?wl (setPlayPause env False)) = Inr ()
        then Sleep 2000 #
               (if fst (setCleanState env False Caller a w) = Inr ()
                then [Completed None None] else [])
        else [])"
  proof (cases r1)
    case (Inl e)
    with res c1 n1 xs show ?thesis by (simp add: quiet_def)
  next
    case r1: (Inr u)
    from xs ys t2 have t3: "trace w3 = trace w @ (xs @ [Sleep 2000] @ ys)" by simp
    show ?thesis
    proof (cases r3)
      case (Inl e)
      from t3 have "new_actions w w3 = xs @ [Sleep 2000] @ ys" by (rule new_actions_append)
      with xs ys have "adapter_actions (new_actions w w3) = [Sleep 2000]"
        by (simp add: adapter_actions_append quiet_def)
      with res c1 r1 Inl show ?thesis by simp
    next
      case (Inr u')
      from t3 have "trace (act (Completed None None) w3) =
          trace w @ (xs @ [Sleep 2000] @ ys @ [Completed None None])" by (simp add: trace_act)
      then have "new_actions w (act (Completed None None) w3) =
          xs @ [Sleep 2000] @ ys @ [Completed None None]" by (rule new_actions_append)
      with xs ys have "adapter_actions (new_actions w (act (Completed None None) w3)) =
          [Sleep 2000, Completed None None]"
        by (simp add: adapter_actions_append quiet_def)
      with res c1 r1 Inr show ?thesis by simp
    qed
  qed
  \<comment> \<open>a SET to true\<close>
  have C: "setCleanState env True cb a w =
       (case with_vac a ?wl (setPlayPause env True) of
          (Inl e, a1, w1) \<Rightarrow> (Inl e, a1, w1)
        | (Inr u, a1, w1) \<Rightarrow> (Inr (), a1, invoke cb None None w1))"
    by (simp add: setCleanState_def split: prod.splits sum.splits)
  obtain q1 b1 u1 where d1: "with_vac a ?wl (setPlayPause env True) = (q1, b1, u1)"
    by (cases "with_vac a ?wl (setPlayPause env True)") auto
  from first [OF d1] obtain zs where
    zs: "trace u1 = trace w @ zs" "quiet zs" "reads zs = 0"
        "[GO_HOME \<mapsto> VBool True] \<notin> set (writes zs)" by blast
  have D: "adapter_actions (new_actions w (snd (snd (setCleanState env True Caller a w)))) =
       (if fst (setCleanState env True Caller a w) = Inr () then [Completed None None] else [])
   \<and> reads (new_actions w (snd (snd (setCleanState env True Caller a w)))) = 0
   \<and> [GO_HOME \<mapsto> VBool True]
        \<notin> set (writes (new_actions w (snd (snd (setCleanState env True Caller a w)))))"
  proof (cases q1)
    case (Inl e)
    with d1 have "setCleanState env True Caller a w = (Inl e, b1, u1)"
      by (simp add: setCleanState_def)
    moreover from zs have "new_actions w u1 = zs" by (simp add: new_actions_append)
    ultimately show ?thesis using zs by (simp add: quiet_def)
  next
    case (Inr u)
    with d1 have e: "setCleanState env True Caller a w =
        (Inr (), b1, act (Completed None None) u1)"
      by (simp add: setCleanState_def invoke_def)
    from zs have "trace (act (Completed None None) u1) = trace w @ (zs @ [Completed None None])"
      by (simp add: trace_act)
    then have "new_actions w (act (Completed None None) u1) = zs @ [Completed None None]"
      by (rule new_actions_append)
    with e zs show ?thesis
      by (simp add: adapter_actions_append reads_append writes_append quiet_def)
  qed
  from A B C D show ?thesis by blast
qed

text \<open>
  On the examples, with a robot that is cleaning: stopping it pauses, waits, queries the
  status, sends it home and then completes; starting it only sets play/pause and completes.
\<close>

theorem setCleanState_order_witness:
  "fst (setCleanState (env_up cleaning) False Caller acc0 world0) = Inr () \<and>
   trace (snd (snd (setCleanState (env_up cleaning) False Caller acc0 world0))) =
     [ApiConnect, ApiSet True [PLAY_PAUSE \<mapsto> VBool False], Sleep 2000, ApiGet True,
      ApiSet True [GO_HOME \<mapsto> VBool True], Completed None None] \<and>
   adapter_actions (new_actions world0
     (snd (snd (setCleanState (env_up cleaning) False Caller acc0 world0)))) =
     [Sleep 2000, Completed None None] \<and>
   trace (snd (snd (setCleanState (env_up cleaning) True Caller acc0 world0))) =
     [ApiConnect, ApiSet True [PLAY_PAUSE \<mapsto> VBool True], Completed None None] \<and>
   trace (snd (snd (setCleanState env_down False Caller acc0 world0))) = [ApiConnect]"
  using setCleanState_order [of acc0 vac0 "env_up cleaning" world0
      "fst (snd (setCleanState (env_up cleaning) False Caller acc0 world0))"
      "snd (snd (setCleanState (env_up cleaning) False Caller acc0 world0))" Caller]
    setCleanState_order [of acc0 vac0 env_down world0 acc0 world0 Caller]
  by (simp add: session_defs example_defs adapter_defs WorkStatus_COMPLETED_def
      WorkStatus_CHARGING_def)

section \<open>Failing reads\<close>

text \<open>
  Five of the six GET handlers catch a failure of the session's accessor and complete once
  with a default: 0 for the battery level, false for the others.
\<close>

lemma with_vac_accessor_trace:
  assumes "with_vac a w (\<lambda>v u. project f (getStatuses env force v u)) = (r, a', w')"
  shows "\<exists>xs. trace w' = trace w @ xs \<and> quiet xs"
proof (rule with_vac_trace [OF _ assms])
  fix v r1 v' u'
  assume "project f (getStatuses env force v w) = (r1, v', u')"
  from accessor_trace [OF this] show "\<exists>xs. trace u' = trace w @ xs \<and> quiet xs" by blast
qed

lemma completes_once:
  assumes "trace w1 = trace w @ xs" and "quiet xs"
  shows "adapter_actions (new_actions w (act (Completed e v) w1)) = [Completed e v]"
proof -
  from assms have "trace (act (Completed e v) w1) = trace w @ (xs @ [Completed e v])"
    by (simp add: trace_act)
  then have "new_actions w (act (Completed e v) w1) = xs @ [Completed e v]"
    by (rule new_actions_append)
  with assms show ?thesis by (simp add: adapter_actions_append quiet_def)
qed

lemma getBatteryLevel_default:
  assumes "fst (with_vac a (log_msg Debug ''getBatteryLevel for '' w) (getBatteyLevel env False))
             = Inl e"
  shows "fst (getBatteryLevel env Caller a w) = Inr () \<and>
         adapter_actions (new_actions w (snd (snd (getBatteryLevel env Caller a w)))) =
           [Completed None (Some (HNum 0))]"
proof -
  let ?wl = "log_msg Debug ''getBatteryLevel for '' w"
  obtain r a1 w1 where c: "with_vac a ?wl (getBatteyLevel env False) = (r, a1, w1)"
    by (cases "with_vac a ?wl (getBatteyLevel env False)") auto
  have "getBatteyLevel env False = (\<lambda>v u. project dp_104 (getStatuses env False v u))"
    by (simp add: getBatteyLevel_def fun_eq_iff)
  with c with_vac_accessor_trace [of a ?wl dp_104 env False r a1 w1] obtain xs where
    xs: "trace w1 = trace w @ xs" "quiet xs" by (auto simp: trace_log_msg)
  from xs have "trace (log_msg Debug ''getBatteryLevel error; '' w1) = trace w @ xs"
    by (simp add: trace_log_msg)
  from completes_once [OF this xs(2)] c assms show ?thesis
    by (simp add: getBatteryLevel_def invoke_def)
qed

lemma getChargingState_default:
  assumes "fst (with_vac a (log_msg Debug ''getChargingState for '' w) (getWorkStatus env False))
             = Inl e"
  shows "fst (getChargingState env Caller a w) = Inr () \<and>
         adapter_actions (new_actions w (snd (snd (getChargingState env Caller a w)))) =
           [Completed None (Some (HBool False))]"
proof -
  let ?wl = "log_msg Debug ''getChargingState for '' w"
  obtain r a1 w1 where c: "with_vac a ?wl (getWorkStatus env False) = (r, a1, w1)"
    by (cases "with_vac a ?wl (getWorkStatus env False)") auto
  have "getWorkStatus env False = (\<lambda>v u. project dp_15 (getStatuses env False v u))"
    by (simp add: getWorkStatus_def fun_eq_iff)
  with c with_vac_accessor_trace [of a ?wl dp_15 env False r a1 w1] obtain xs where
    xs: "trace w1 = trace w @ xs" "quiet xs" by (auto simp: trace_log_msg)
  from xs have "trace (log_msg Debug ''getChargingState error; '' w1) = trace w @ xs"
    by (simp add: trace_log_msg)
  from completes_once [OF this xs(2)] c assms show ?thesis
    by (simp add: getChargingState_def invoke_def)
qed

lemma getStatusLowBattery_default:
  assumes "fst (with_vac a w (getBatteyLevel env False)) = Inl e"
  shows "fst (getStatusLowBattery env Caller a w) = Inr () \<and>
         adapter_actions (new_actions w (snd (snd (getStatusLowBattery env Caller a w)))) =
           [Completed None (Some (HBool False))]"
proof -
  obtain r a1 w1 where c: "with_vac a w (getBatteyLevel env False) = (r, a1, w1)"
    by (cases "with_vac a w (getBatteyLevel env False)") auto
  have "getBatteyLevel env False = (\<lambda>v u. project dp_104 (getStatuses env False v u))"
    by (simp add: getBatteyLevel_def fun_eq_iff)
  with c with_vac_accessor_trace [of a w dp_104 env False r a1 w1] obtain xs where
    xs: "trace w1 = trace w @ xs" "quiet xs" by auto
  from completes_once [OF xs] c assms show ?thesis
    by (simp add: getStatusLowBattery_def invoke_def)
qed

lemma getFindRobot_default:
  assumes "fst (with_vac a (log_msg Debug ''getFindRobot for '' w) (getFindRobot env False))
             = Inl e"
  shows "fst (getFindRobot_acc env Caller a w) = Inr () \<and>
         adapter_actions (new_actions w (snd (snd (getFindRobot_acc env Caller a w)))) =
           [Completed None (Some (HBool False))]"
proof -
  let ?wl = "log_msg Debug ''getFindRobot for '' w"
  obtain r a1 w1 where c: "with_vac a ?wl (getFindRobot env False) = (r, a1, w1)"
    by (cases "with_vac a ?wl (getFindRobot env False)") auto
  have "getFindRobot env False = (\<lambda>v u. project dp_103 (getStatuses env False v u))"
    by (simp add: getFindRobot_def fun_eq_iff)
  with c with_vac_accessor_trace [of a ?wl dp_103 env False r a1 w1] obtain xs where
    xs: "trace w1 = trace w @ xs" "quiet xs" by (auto simp: trace_log_msg)
  from completes_once [OF xs] c assms show ?thesis
    by (simp add: getFindRobot_acc_def invoke_def)
qed

lemma getErrorStatus_default:
  assumes "fst (with_vac a w (getErrorCode env False)) = Inl e"
  shows "fst (getErrorStatus env Caller a w) = Inr () \<and>
         adapter_actions (new_actions w (snd (snd (getErrorStatus env Caller a w)))) =
           [Completed None (Some (HBool False))]"
proof -
  obtain r a1 w1 where c: "with_vac a w (getErrorCode env False) = (r, a1, w1)"
    by (cases "with_vac a w (getErrorCode env False)") auto
  have "getErrorCode env False = (\<lambda>v u. project dp_106 (getStatuses env False v u))"
    by (simp add: getErrorCode_def fun_eq_iff)
  with c with_vac_accessor_trace [of a w dp_106 env False r a1 w1] obtain xs where
    xs: "trace w1 = trace w @ xs" "quiet xs" by auto
  from completes_once [OF xs] c assms show ?thesis
    by (simp add: getErrorStatus_def invoke_def)
qed

text \<open>
  \<^verbatim>\<open>getCleanState\<close> is different. Its \<^verbatim>\<open>catch\<close> branch rebuilds the session and calls itself
  with the empty callback, so after a failure of \<^verbatim>\<open>getPlayPause(true)\<close> the caller's callback
  is never invoked, however the retries end.
\<close>

lemma setup_acc_trace:
  assumes "setup_acc env a w = (r, a', w')"
  shows "\<exists>xs. trace w' = trace w @ xs \<and> quiet xs"
proof (cases "RoboVac_new env (config a) 2")
  case (Inl e)
  with assms have "w' = w" by (simp add: setup_acc_def)
  then show ?thesis by (simp add: quiet_Nil)
next
  case (Inr v)
  obtain x v' u where g: "getStatuses env False v w = (x, v', u)"
    by (cases "getStatuses env False v w") auto
  with assms Inr have "w' = u" by (simp add: setup_acc_def)
  with getStatuses_trace [OF g] show ?thesis by blast
qed

lemma getPlayPause_call_trace:
  assumes "with_vac a (log_msg l m w) (getPlayPause env True) = (r, a1, w1)"
  shows "\<exists>xs. trace w1 = trace w @ xs \<and> quiet xs"
proof -
  have "getPlayPause env True = (\<lambda>v u. project dp_2 (getStatuses env True v u))"
    by (simp add: getPlayPause_def fun_eq_iff)
  with assms with_vac_accessor_trace [of a "log_msg l m w" dp_2 env True r a1 w1]
  show ?thesis by (auto simp: trace_log_msg)
qed

lemma getCleanState_NoOp_quiet:
  "getCleanState n env NoOp a w = Some (r, a', w') \<Longrightarrow> \<exists>xs. trace w' = trace w @ xs \<and> quiet xs"
proof (induction n arbitrary: a w r a' w')
  case 0
  then show ?case by simp
next
  case (Suc n)
  let ?wl = "log_msg Debug ''getCleanState  for '' w"
  obtain r1 a1 w1 where c: "with_vac a ?wl (getPlayPause env True) = (r1, a1, w1)"
    by (cases "with_vac a ?wl (getPlayPause env True)") auto
  from getPlayPause_call_trace [OF c] obtain xs where
    xs: "trace w1 = trace w @ xs" "quiet xs" by blast
  show ?case
  proof (cases r1)
    case (Inr b)
    with c Suc.prems have "w' = log_msg Debug ''getCleanState for  returned '' w1"
      by (simp add: invoke_def)
    with xs show ?thesis by (simp add: trace_log_msg)
  next
    case (Inl e)
    obtain r2 a2 w2 where s: "setup_acc env a1 w1 = (r2, a2, w2)"
      by (cases "setup_acc env a1 w1") auto
    from setup_acc_trace [OF s] obtain ys where ys: "trace w2 = trace w1 @ ys" "quiet ys"
      by blast
    show ?thesis
    proof (cases r2)
      case e2: (Inl e2)
      with c Inl s Suc.prems have "w' = w2" by simp
      with xs ys have "trace w' = trace w @ (xs @ ys)" "quiet (xs @ ys)"
        by (simp_all add: quiet_append)
      then show ?thesis by blast
    next
      case (Inr st)
      with c Inl s Suc.prems obtain r3 where
        inner: "getCleanState n env NoOp a2 w2 = Some (r3, a', w')"
        by (auto split: option.splits)
      from Suc.IH [OF inner] obtain zs where "trace w' = trace w2 @ zs" "quiet zs" by blast
      with xs ys have "trace w' = trace w @ (xs @ ys @ zs)" "quiet (xs @ ys @ zs)"
        by (simp_all add: quiet_append)
      then show ?thesis by blast
    qed
  qed
qed

lemma getCleanState_failure_quiet:
  assumes f: "fst (with_vac a (log_msg Debug ''getCleanState  for '' w) (getPlayPause env True))
                = Inl e"
    and g: "getCleanState n env cb a w = Some (r, a', w')"
  shows "\<exists>xs. trace w' = trace w @ xs \<and> quiet xs"
proof (cases n)
  case 0
  with g show ?thesis by simp
next
  case (Suc k)
  let ?wl = "log_msg Debug ''getCleanState  for '' w"
  obtain r1 a1 w1 where c: "with_vac a ?wl (getPlayPause env True) = (r1, a1, w1)"
    by (cases "with_vac a ?wl (getPlayPause env True)") auto
  with f have r1: "r1 = Inl e" by simp
  from getPlayPause_call_trace [OF c] obtain xs where
    xs: "trace w1 = trace w @ xs" "quiet xs" by blast
  obtain r2 a2 w2 where s: "setup_acc env a1 w1 = (r2, a2, w2)"
    by (cases "setup_acc env a1 w1") auto
  from setup_acc_trace [OF s] obtain ys where ys: "trace w2 = trace w1 @ ys" "quiet ys"
    by blast
  show ?thesis
  proof (cases r2)
    case (Inl e2)
    with c r1 s g Suc have "w' = w2" by simp
    with xs ys have "trace w' = trace w @ (xs @ ys)" "quiet (xs @ ys)"
      by (simp_all add: quiet_append)
    then show ?thesis by blast
  next
    case (Inr st)
    with c r1 s g Suc obtain r3 where
      inner: "getCleanState k env NoOp a2 w2 = Some (r3, a', w')"
      by (auto split: option.splits)
    from getCleanState_NoOp_quiet [OF inner] obtain zs where
      "trace w' = trace w2 @ zs" "quiet zs" by blast
    with xs ys have "trace w' = trace w @ (xs @ ys @ zs)" "quiet (xs @ ys @ zs)"
      by (simp_all add: quiet_append)
    then show ?thesis by blast
  qed
qed

text \<open>
  C1, at two failing inputs. With the device unreachable, \<^verbatim>\<open>getPlayPause(true)\<close> throws,
  \<^verbatim>\<open>setup()\<close> inside the \<^verbatim>\<open>catch\<close> branch throws as well, and \<^verbatim>\<open>getCleanState\<close> ends with that
  error and without a callback. With a device whose first read fails and which answers
  afterwards, \<^verbatim>\<open>getCleanState\<close> ends normally, and again the caller's callback was never
  invoked. On the same unreachable device \<^verbatim>\<open>getBatteryLevel\<close> completes once with 0.
\<close>

theorem getCleanState_failure_no_callback:
  "fst (with_vac acc0 (log_msg Debug ''getCleanState  for '' world0) (getPlayPause env_down True))
     = Inl (TransportError ''connection timed out'') \<and>
   map_option (\<lambda>x. (fst x, trace (snd (snd x))))
     (getCleanState (Suc 0) env_down Caller acc0 world0) =
     Some (Inl (TransportError ''connection timed out''), [ApiConnect, ApiConnect]) \<and>
   map_option (\<lambda>x. (fst x, trace (snd (snd x))))
     (getCleanState (Suc (Suc 0)) (env_flaky docked) Caller acc0 world0) =
     Some (Inr (), [ApiConnect, ApiGet True, ApiConnect, ApiGet True, ApiGet True]) \<and>
   trace (snd (snd (getBatteryLevel env_down Caller acc0 world0))) =
     [ApiConnect, Completed None (Some (HNum 0))]"
  by (simp add: session_defs example_defs adapter_defs)

section \<open>Constructing the session\<close>

text \<open>
  C2. With an empty or missing \<^verbatim>\<open>deviceId\<close> the constructor throws
  \<^verbatim>\<open>You must pass through deviceId\<close> before the transport object is created. \<^verbatim>\<open>localKey\<close> is
  handed to the transport constructor as it is, and that constructor is where an empty key
  is rejected. So with a transport constructor that rejects every empty or missing key, as
  the library's does, every configuration whose \<^verbatim>\<open>deviceId\<close> or \<^verbatim>\<open>localKey\<close> is empty fails
  to construct a session, \<^verbatim>\<open>setup()\<close> then fails leaving the accessory and the world as
  they were (no call on the transport), the accessory is left without a session, and a
  session is constructed only when both are non-empty.
\<close>

theorem RoboVac_new_requires_id_and_key:
  "(falsy (deviceId cfg) \<longrightarrow>
      RoboVac_new env cfg t = Inl (Error ''You must pass through deviceId''))
   \<and> opt_key (tuya_options cfg) = localKey cfg
   \<and> (checks_key env \<longrightarrow>
        (falsy (deviceId cfg) \<or> falsy (localKey cfg) \<longrightarrow>
           isl (RoboVac_new env cfg t) \<and>
           isl (fst (setup_acc env (a\<lparr>config := cfg\<rparr>) w)) \<and>
           snd (setup_acc env (a\<lparr>config := cfg\<rparr>) w) = (a\<lparr>config := cfg\<rparr>, w)) \<and>
        (RoboVac_new env cfg t = Inr v \<longrightarrow>
           \<not> falsy (deviceId cfg) \<and> \<not> falsy (localKey cfg)) \<and>
        (falsy (cfg_deviceId c) \<or> falsy (cfg_localKey c) \<longrightarrow>
           roboVac (fst (EufyRoboVacAccessory_new env c w)) = None \<and>
           trace (snd (EufyRoboVacAccessory_new env c w)) = trace w))"
proof -
  have first: "falsy (deviceId cfg) \<longrightarrow>
      RoboVac_new env cfg t = Inl (Error ''You must pass through deviceId'')"
    by (simp add: RoboVac_new_def)
  have key: "opt_key (tuya_options cfg) = localKey cfg" by (simp add: tuya_options_def)
  have rest: "(falsy (deviceId cfg) \<or> falsy (localKey cfg) \<longrightarrow>
           isl (RoboVac_new env cfg t) \<and>
           isl (fst (setup_acc env (a\<lparr>config := cfg\<rparr>) w)) \<and>
           snd (setup_acc env (a\<lparr>config := cfg\<rparr>) w) = (a\<lparr>config := cfg\<rparr>, w)) \<and>
        (RoboVac_new env cfg t = Inr v \<longrightarrow>
           \<not> falsy (deviceId cfg) \<and> \<not> falsy (localKey cfg)) \<and>
        (falsy (cfg_deviceId c) \<or> falsy (cfg_localKey c) \<longrightarrow>
           roboVac (fst (EufyRoboVacAccessory_new env c w)) = None \<and>
           trace (snd (EufyRoboVacAccessory_new env c w)) = trace w)"
    if ck: "checks_key env"
  proof -
    have fails: "isl (RoboVac_new env k u)" if e: "falsy (deviceId k) \<or> falsy (localKey k)"
      for k u
    proof (cases "falsy (deviceId k)")
      case True
      then show ?thesis by (simp add: RoboVac_new_def)
    next
      case False
      with e have "falsy (opt_key (tuya_options k))" by (simp add: tuya_options_def)
      with ck have "isl (tuya_new env (tuya_options k))" by (simp add: checks_key_def)
      with False show ?thesis by (auto simp: RoboVac_new_def isl_def)
    qed
    have p1: "isl (RoboVac_new env cfg t) \<and>
           isl (fst (setup_acc env (a\<lparr>config := cfg\<rparr>) w)) \<and>
           snd (setup_acc env (a\<lparr>config := cfg\<rparr>) w) = (a\<lparr>config := cfg\<rparr>, w)"
      if e: "falsy (deviceId cfg) \<or> falsy (localKey cfg)"
    proof -
      from fails [OF e, of 2] obtain x where "RoboVac_new env cfg 2 = Inl x"
        by (auto simp: isl_def)
      then have "isl (fst (setup_acc env (a\<lparr>config := cfg\<rparr>) w))"
        "snd (setup_acc env (a\<lparr>config := cfg\<rparr>) w) = (a\<lparr>config := cfg\<rparr>, w)"
        by (simp_all add: setup_acc_def)
      with fails [OF e, of t] show ?thesis by simp
    qed
    have p2: "\<not> falsy (deviceId cfg) \<and> \<not> falsy (localKey cfg)"
      if ok: "RoboVac_new env cfg t = Inr v"
    proof -
      have "\<not> (falsy (deviceId cfg) \<or> falsy (localKey cfg))"
      proof
        assume "falsy (deviceId cfg) \<or> falsy (localKey cfg)"
        from fails [OF this, of t] ok show False by simp
      qed
      then show ?thesis by simp
    qed
    have p3: "roboVac (fst (EufyRoboVacAccessory_new env c w)) = None \<and>
           trace (snd (EufyRoboVacAccessory_new env c w)) = trace w"
      if e: "falsy (cfg_deviceId c) \<or> falsy (cfg_localKey c)"
    proof -
      let ?k = "\<lparr>deviceId = cfg_deviceId c, localKey = cfg_localKey c, ip = cfg_ip c,
                 port = 6668\<rparr>"
      from e have "falsy (deviceId ?k) \<or> falsy (localKey ?k)" by simp
      from fails [OF this, of 2] obtain x where "RoboVac_new env ?k 2 = Inl x"
        by (auto simp: isl_def)
      then show ?thesis
        by (simp add: EufyRoboVacAccessory_new_def setup_acc_def Let_def trace_log_msg)
    qed
    from p1 p2 p3 show ?thesis by blast
  qed
  from first key rest show ?thesis by blast
qed

text \<open>
  On the examples: an empty \<^verbatim>\<open>deviceId\<close> fails in the session's own check, an empty or missing
  \<^verbatim>\<open>localKey\<close> fails in the transport constructor, in both cases without any action on the
  transport, and the configuration with both present constructs the session.
\<close>

theorem RoboVac_new_requires_id_and_key_witness:
  "checks_key (env_up docked) \<and>
   falsy (deviceId (cfg0\<lparr>deviceId := Some ''''\<rparr>)) \<and>
   RoboVac_new (env_up docked) (cfg0\<lparr>deviceId := Some ''''\<rparr>) 2 =
     Inl (Error ''You must pass through deviceId'') \<and>
   falsy (localKey (cfg0\<lparr>localKey := Some ''''\<rparr>)) \<and>
   RoboVac_new (env_up docked) (cfg0\<lparr>localKey := Some ''''\<rparr>) 2 = Inl TypeError \<and>
   RoboVac_new (env_up docked) (cfg0\<lparr>localKey := None\<rparr>) 2 = Inl TypeError \<and>
   setup_acc (env_up docked) (acc0\<lparr>config := cfg0\<lparr>localKey := Some ''''\<rparr>\<rparr>) world0 =
     (Inl TypeError, acc0\<lparr>config := cfg0\<lparr>localKey := Some ''''\<rparr>\<rparr>, world0) \<and>
   trace (snd (EufyRoboVacAccessory_new (env_up docked)
     \<lparr>cfg_name = None, cfg_deviceId = Some ''bf51dd0a5c3e9f2a11xyzq'', cfg_localKey = None,
      cfg_ip = Some ''192.168.1.50''\<rparr> world0)) = [] \<and>
   RoboVac_new (env_up docked) cfg0 2 = Inr vac0 \<and>
   \<not> falsy (deviceId cfg0) \<and> \<not> falsy (localKey cfg0)"
proof -
  have ck: "checks_key (env_up docked)"
    by (auto simp: checks_key_def env_up_def tuya_new_strict_def falsy_def split: option.splits)
  note th = RoboVac_new_requires_id_and_key
  from ck
    th [where env = "env_up docked" and cfg = "cfg0\<lparr>deviceId := Some ''''\<rparr>" and t = 2
        and a = acc0 and w = world0 and v = vac0
        and c = "\<lparr>cfg_name = None, cfg_deviceId = Some ''bf51dd0a5c3e9f2a11xyzq'',
                 cfg_localKey = None, cfg_ip = Some ''192.168.1.50''\<rparr>"]
    th [where env = "env_up docked" and cfg = "cfg0\<lparr>localKey := Some ''''\<rparr>" and t = 2
        and a = acc0 and w = world0 and v = vac0
        and c = "\<lparr>cfg_name = None, cfg_deviceId = Some ''bf51dd0a5c3e9f2a11xyzq'',
                 cfg_localKey = None, cfg_ip = Some ''192.168.1.50''\<rparr>"]
    th [where env = "env_up docked" and cfg = cfg0 and t = 2
        and a = acc0 and w = world0 and v = vac0
        and c = "\<lparr>cfg_name = None, cfg_deviceId = Some ''bf51dd0a5c3e9f2a11xyzq'',
                 cfg_localKey = None, cfg_ip = Some ''192.168.1.50''\<rparr>"]
  show ?thesis
    by (simp add: session_defs example_defs adapter_defs EufyRoboVacAccessory_new_def)
qed

end
